theory Spec2Isabelle
  imports Main "HOL-Library.Word" "HOL-Library.List_Lexorder" "HOL-Library.AList"
begin

section \<open>Buffers, errors and the bdb key compiler\<close>

text \<open>
  A Buffer is a list of bytes. JavaScript exceptions are values of \<open>error\<close>: an operation
  that can throw returns \<open>error + 'a\<close>, with \<open>Inl\<close> for the exception.
  \<^item> \<open>AssertionError\<close>: a failed \<^verbatim>\<open>assert(...)\<close> of bsert;
  \<^item> \<open>KeyError\<close>: the bdb key compiler rejects an argument or a key;
  \<^item> \<open>TypeError\<close>: a method is called on \<^verbatim>\<open>null\<close>, or \<^verbatim>\<open>BN\<close> gets a non-BN operand;
  \<^item> \<open>ReferenceError x\<close>: the identifier \<open>x\<close> is not bound in any enclosing scope.
\<close>

type_synonym byte = "8 word"
type_synonym buffer = "byte list"

datatype error = AssertionError | KeyError | TypeError | ReferenceError string

text \<open>
  layout.js builds its keys with \<^verbatim>\<open>bdb.key(id, [types])\<close>. The bdb key types used are
  \<^item> \<^verbatim>\<open>ascii\<close>: one length byte, then the characters (at most 255 of them);
  \<^item> \<^verbatim>\<open>hash256\<close>: exactly 32 bytes;
  \<^item> \<^verbatim>\<open>uint32\<close>: four bytes, big-endian.
  A key is the id byte followed by the fields in order.
\<close>

definition write_ascii :: "string \<Rightarrow> error + buffer" where
  "write_ascii v =
     (if length v \<le> 255
      then Inr (of_nat (length v) # map (\<lambda>c. of_nat (of_char c)) v)
      else Inl KeyError)"

definition write_hash256 :: "buffer \<Rightarrow> error + buffer" where
  "write_hash256 v = (if length v = 32 then Inr v else Inl KeyError)"

definition write_uint32 :: "nat \<Rightarrow> error + buffer" where
  "write_uint32 v =
     (if v < 2 ^ 32
      then Inr [of_nat (v div 2 ^ 24), of_nat (v div 2 ^ 16), of_nat (v div 2 ^ 8), of_nat v]
      else Inl KeyError)"

definition read_ascii :: "buffer \<Rightarrow> error + string \<times> buffer" where
  "read_ascii k =
     (case k of
        [] \<Rightarrow> Inl KeyError
      | n # r \<Rightarrow>
          if unat n \<le> length r
          then Inr (map (\<lambda>b. char_of (unat b)) (take (unat n) r), drop (unat n) r)
          else Inl KeyError)"

definition read_hash256 :: "buffer \<Rightarrow> error + buffer \<times> buffer" where
  "read_hash256 k = (if 32 \<le> length k then Inr (take 32 k, drop 32 k) else Inl KeyError)"

definition readU32BE :: "buffer \<Rightarrow> nat" where
  "readU32BE k = foldl (\<lambda>a b. a * 256 + unat b) 0 (take 4 k)"

definition read_uint32 :: "buffer \<Rightarrow> error + nat \<times> buffer" where
  "read_uint32 k = (if 4 \<le> length k then Inr (readU32BE k, drop 4 k) else Inl KeyError)"

text \<open>\<^verbatim>\<open>bdb.key(id, ['ascii'])\<close>: the counter keys \<open>b[name]\<close> and \<open>r[name]\<close>.\<close>

definition encode1 :: "byte \<Rightarrow> string \<Rightarrow> error + buffer" where
  "encode1 tag name = (case write_ascii name of Inl e \<Rightarrow> Inl e | Inr a \<Rightarrow> Inr (tag # a))"

text \<open>\<^verbatim>\<open>bdb.key(id, ['ascii', 'hash256', 'uint32'])\<close>: the membership keys
  \<open>B[name][hash][index]\<close> and \<open>R[name][hash][index]\<close>.\<close>

definition encode3 :: "byte \<Rightarrow> string \<Rightarrow> buffer \<Rightarrow> nat \<Rightarrow> error + buffer" where
  "encode3 tag name h i =
     (case write_ascii name of
        Inl e \<Rightarrow> Inl e
      | Inr a \<Rightarrow>
          (case write_hash256 h of
             Inl e \<Rightarrow> Inl e
           | Inr hb \<Rightarrow>
               (case write_uint32 i of
                  Inl e \<Rightarrow> Inl e
                | Inr ib \<Rightarrow> Inr (tag # a @ hb @ ib))))"

definition decode3 :: "byte \<Rightarrow> buffer \<Rightarrow> error + string \<times> buffer \<times> nat" where
  "decode3 tag key =
     (case key of
        [] \<Rightarrow> Inl KeyError
      | t # k1 \<Rightarrow>
          if t \<noteq> tag then Inl KeyError
          else
            (case read_ascii k1 of
               Inl e \<Rightarrow> Inl e
             | Inr (name, k2) \<Rightarrow>
                 (case read_hash256 k2 of
                    Inl e \<Rightarrow> Inl e
                  | Inr (h, k3) \<Rightarrow>
                      (case read_uint32 k3 of
                         Inl e \<Rightarrow> Inl e
                       | Inr (i, k4) \<Rightarrow> Inr (name, h, i)))))"

text \<open>\<^verbatim>\<open>key.min(name)\<close> and \<open>key.max(name)\<close> fill the missing fields with the least and the
  greatest value of their types.\<close>

definition min3 :: "byte \<Rightarrow> string \<Rightarrow> error + buffer" where
  "min3 tag name = encode3 tag name (replicate 32 0x00) 0"

definition max3 :: "byte \<Rightarrow> string \<Rightarrow> error + buffer" where
  "max3 tag name = encode3 tag name (replicate 32 0xFF) 0xFFFFFFFF"

text \<open>layout.js: the key families of the auction index.\<close>

datatype kind = Bids | Reveals

fun member_id :: "kind \<Rightarrow> byte" where
  "member_id Bids = 0x42"
| "member_id Reveals = 0x52"

fun count_id :: "kind \<Rightarrow> byte" where
  "count_id Bids = 0x62"
| "count_id Reveals = 0x72"

definition layout_T :: buffer where
  "layout_T = [0x54]"

section \<open>BN counters\<close>

text \<open>
  The counters are \<^verbatim>\<open>BN\<close> big numbers, modelled as \<open>int\<close>. \<^verbatim>\<open>encode()\<close> writes the magnitude
  as big-endian bytes, as few as possible but at least one; \<^verbatim>\<open>BN.decode(raw)\<close> reads a
  buffer as an unsigned big-endian number.
\<close>

function be_digits :: "nat \<Rightarrow> buffer" where
  "be_digits n = (if n = 0 then [] else be_digits (n div 256) @ [of_nat (n mod 256)])"
  by pat_completeness auto
termination
  by (relation "measure id") auto

declare be_digits.simps [simp del]

definition BN_encode :: "int \<Rightarrow> buffer" where
  "BN_encode c = (let ds = be_digits (nat \<bar>c\<bar>) in if ds = [] then [0] else ds)"

definition be_value :: "buffer \<Rightarrow> nat" where
  "be_value raw = foldl (\<lambda>a b. a * 256 + unat b) 0 raw"

definition BN_decode :: "buffer \<Rightarrow> int" where
  "BN_decode raw = int (be_value raw)"

section \<open>The bdb store\<close>

text \<open>
  The store is a finite map from keys to values, kept as an association list with
  distinct keys. \<^verbatim>\<open>db.get\<close> answers \<^verbatim>\<open>null\<close> (\<open>None\<close>) for an absent key. A batch buffers
  puts and deletes; \<^verbatim>\<open>batch.write()\<close> applies all of them or, when it rejects, none.
  \<^verbatim>\<open>db.keys({gte, lte})\<close> yields the keys in the closed range in bytewise order.
\<close>

type_synonym store = "(buffer \<times> buffer) list"

datatype batch_op = Put buffer buffer | Del buffer

fun apply_op :: "store \<Rightarrow> batch_op \<Rightarrow> store" where
  "apply_op st (Put k v) = AList.update k v st"
| "apply_op st (Del k) = AList.delete k st"

definition apply_batch :: "batch_op list \<Rightarrow> store \<Rightarrow> store" where
  "apply_batch ops st = foldl apply_op st ops"

definition db_get :: "store \<Rightarrow> buffer \<Rightarrow> buffer option" where
  "db_get st k = map_of st k"

definition db_has :: "store \<Rightarrow> buffer \<Rightarrow> bool" where
  "db_has st k = (db_get st k \<noteq> None)"

definition db_keys :: "store \<Rightarrow> buffer \<Rightarrow> buffer \<Rightarrow> buffer list" where
  "db_keys st gte lte = sort (filter (\<lambda>k. gte \<le> k \<and> k \<le> lte) (map fst st))"

section \<open>AuctionDB\<close>

text \<open>
  The state of an AuctionDB: the store, the pending batch (\<^verbatim>\<open>this.batch\<close>, \<open>None\<close> for
  \<^verbatim>\<open>null\<close>), the writes that reached the store, oldest first, and what was logged.
\<close>

datatype db_write = WPut buffer buffer | WBatch "batch_op list"

record auctiondb =
  db :: store
  batch :: "batch_op list option"
  journal :: "db_write list"
  adb_log :: "string list"

record outpoint =
  hash :: buffer
  index :: nat

datatype jsval = JNull | JFalse | JTrue

text \<open>A put without a value, as \<^verbatim>\<open>this.put(layout.B.encode(...))\<close> in \<^verbatim>\<open>addBid\<close>, stores the
  dummy value of bdb: one zero byte.\<close>

definition EMPTY :: buffer where
  "EMPTY = [0x00]"

definition start :: "auctiondb \<Rightarrow> error + auctiondb" where
  "start s = (if batch s = None then Inr (s\<lparr>batch := Some []\<rparr>) else Inl AssertionError)"

definition put :: "auctiondb \<Rightarrow> buffer \<Rightarrow> buffer \<Rightarrow> error + auctiondb" where
  "put s key val =
     (case batch s of
        None \<Rightarrow> Inl TypeError
      | Some ops \<Rightarrow> Inr (s\<lparr>batch := Some (ops @ [Put key val])\<rparr>))"

definition del :: "auctiondb \<Rightarrow> buffer \<Rightarrow> error + auctiondb" where
  "del s key =
     (case batch s of
        None \<Rightarrow> Inl TypeError
      | Some ops \<Rightarrow> Inr (s\<lparr>batch := Some (ops @ [Del key])\<rparr>))"

text \<open>\<open>commit s ok\<close>: \<open>ok\<close> tells whether \<^verbatim>\<open>batch.write()\<close> resolves. Whatever is thrown
  inside the \<^verbatim>\<open>try\<close> block, a rejected write or the call on a \<^verbatim>\<open>null\<close> batch, is caught,
  logged and answered with \<^verbatim>\<open>null\<close>.\<close>

definition commit :: "auctiondb \<Rightarrow> bool \<Rightarrow> auctiondb \<times> (error + jsval)" where
  "commit s ok =
     (case batch s of
        None \<Rightarrow>
          (s\<lparr>batch := None, adb_log := adb_log s @ [''Error writing to db...'']\<rparr>, Inr JNull)
      | Some ops \<Rightarrow>
          if ok
          then (s\<lparr>db := apply_batch ops (db s), batch := None,
                  journal := journal s @ [WBatch ops]\<rparr>, Inr JTrue)
          else (s\<lparr>batch := None, adb_log := adb_log s @ [''Error writing to db...'']\<rparr>,
                Inr JNull))"

definition getTip :: "auctiondb \<Rightarrow> buffer option" where
  "getTip s = db_get (db s) layout_T"

text \<open>\<open>putTip s h ok\<close>: a direct \<^verbatim>\<open>db.put\<close>, outside any batch. On failure the error is
  emitted on the AuctionDB and the result is \<^verbatim>\<open>null\<close>.\<close>

definition putTip :: "auctiondb \<Rightarrow> buffer \<Rightarrow> bool \<Rightarrow> auctiondb \<times> buffer option" where
  "putTip s h ok =
     (if ok
      then (s\<lparr>db := AList.update layout_T h (db s),
              journal := journal s @ [WPut layout_T h]\<rparr>, Some h)
      else (s\<lparr>adb_log := adb_log s @ [''error'']\<rparr>, None))"

text \<open>\<^verbatim>\<open>getBidCount\<close> and \<^verbatim>\<open>getRevealCount\<close> are the same code over the \<open>b\<close> and the \<open>r\<close> key
  family: \<open>None\<close> is \<^verbatim>\<open>null\<close>, the answer when the key is absent.\<close>

definition getCount :: "kind \<Rightarrow> auctiondb \<Rightarrow> string \<Rightarrow> error + int option" where
  "getCount kd s name =
     (case encode1 (count_id kd) name of
        Inl e \<Rightarrow> Inl e
      | Inr key \<Rightarrow>
          (case db_get (db s) key of
             None \<Rightarrow> Inr None
           | Some raw \<Rightarrow> Inr (Some (BN_decode raw))))"

definition getBidCount :: "auctiondb \<Rightarrow> string \<Rightarrow> error + int option" where
  "getBidCount = getCount Bids"

definition getRevealCount :: "auctiondb \<Rightarrow> string \<Rightarrow> error + int option" where
  "getRevealCount = getCount Reveals"

text \<open>\<^verbatim>\<open>addBid\<close> and \<^verbatim>\<open>addReveal\<close>. The two \<^verbatim>\<open>typeof\<close>/\<^verbatim>\<open>isBuffer\<close> assertions hold by typing;
  \<^verbatim>\<open>(outpoint.index >>> 0) === outpoint.index\<close> says that the index is a uint32. A \<^verbatim>\<open>null\<close>
  count is replaced by zero before the increment.\<close>

definition addMember ::
  "kind \<Rightarrow> auctiondb \<Rightarrow> string \<Rightarrow> outpoint \<Rightarrow> bool \<Rightarrow> auctiondb \<times> (error + jsval)" where
  "addMember kd s name outp ok =
     (if \<not> index outp < 2 ^ 32 then (s, Inl AssertionError)
      else
        (case getCount kd s name of
           Inl e \<Rightarrow> (s, Inl e)
         | Inr c \<Rightarrow>
             (let count = (case c of None \<Rightarrow> 0 | Some n \<Rightarrow> n) + 1 in
              case start s of
                Inl e \<Rightarrow> (s, Inl e)
              | Inr s1 \<Rightarrow>
                  (case encode1 (count_id kd) name of
                     Inl e \<Rightarrow> (s1, Inl e)
                   | Inr ckey \<Rightarrow>
                       (case put s1 ckey (BN_encode count) of
                          Inl e \<Rightarrow> (s1, Inl e)
                        | Inr s2 \<Rightarrow>
                            (case encode3 (member_id kd) name (hash outp) (index outp) of
                               Inl e \<Rightarrow> (s2, Inl e)
                             | Inr mkey \<Rightarrow>
                                 (case put s2 mkey EMPTY of
                                    Inl e \<Rightarrow> (s2, Inl e)
                                  | Inr s3 \<Rightarrow>
                                      (case commit s3 ok of
                                         (s4, Inl e) \<Rightarrow> (s4, Inl e)
                                       | (s4, Inr r) \<Rightarrow>
                                           if r = JNull then (s4, Inr JNull)
                                           else (s4, Inr JTrue)))))))))"

definition addBid :: "auctiondb \<Rightarrow> string \<Rightarrow> outpoint \<Rightarrow> bool \<Rightarrow> auctiondb \<times> (error + jsval)" where
  "addBid = addMember Bids"

definition addReveal :: "auctiondb \<Rightarrow> string \<Rightarrow> outpoint \<Rightarrow> bool \<Rightarrow> auctiondb \<times> (error + jsval)" where
  "addReveal = addMember Reveals"

text \<open>\<^verbatim>\<open>removeBid\<close> and \<^verbatim>\<open>removeReveal\<close>: \<^verbatim>\<open>null\<close> when there is no counter record, \<^verbatim>\<open>false\<close>
  when the commit fails. A counter record that holds zero is a BN object, which is
  truthy, so the decrement goes on. No membership lookup is made.\<close>

definition removeMember ::
  "kind \<Rightarrow> auctiondb \<Rightarrow> string \<Rightarrow> outpoint \<Rightarrow> bool \<Rightarrow> auctiondb \<times> (error + jsval)" where
  "removeMember kd s name outp ok =
     (if \<not> index outp < 2 ^ 32 then (s, Inl AssertionError)
      else
        (case getCount kd s name of
           Inl e \<Rightarrow> (s, Inl e)
         | Inr None \<Rightarrow> (s, Inr JNull)
         | Inr (Some n) \<Rightarrow>
             (let count = n - 1 in
              case start s of
                Inl e \<Rightarrow> (s, Inl e)
              | Inr s1 \<Rightarrow>
                  (case encode1 (count_id kd) name of
                     Inl e \<Rightarrow> (s1, Inl e)
                   | Inr ckey \<Rightarrow>
                       (case put s1 ckey (BN_encode count) of
                          Inl e \<Rightarrow> (s1, Inl e)
                        | Inr s2 \<Rightarrow>
                            (case encode3 (member_id kd) name (hash outp) (index outp) of
                               Inl e \<Rightarrow> (s2, Inl e)
                             | Inr mkey \<Rightarrow>
                                 (case del s2 mkey of
                                    Inl e \<Rightarrow> (s2, Inl e)
                                  | Inr s3 \<Rightarrow>
                                      (case commit s3 ok of
                                         (s4, Inl e) \<Rightarrow> (s4, Inl e)
                                       | (s4, Inr r) \<Rightarrow>
                                           if r = JNull then (s4, Inr JFalse)
                                           else (s4, Inr JTrue)))))))))"

definition removeBid :: "auctiondb \<Rightarrow> string \<Rightarrow> outpoint \<Rightarrow> bool \<Rightarrow> auctiondb \<times> (error + jsval)" where
  "removeBid = removeMember Bids"

definition removeReveal :: "auctiondb \<Rightarrow> string \<Rightarrow> outpoint \<Rightarrow> bool \<Rightarrow> auctiondb \<times> (error + jsval)" where
  "removeReveal = removeMember Reveals"

text \<open>\<^verbatim>\<open>getBids\<close> and \<^verbatim>\<open>getReveals\<close>: a range scan from \<open>min(name)\<close> to \<open>max(name)\<close>, every key
  decoded into an outpoint; a key that does not decode throws.\<close>

fun parse_keys :: "byte \<Rightarrow> buffer list \<Rightarrow> error + outpoint list" where
  "parse_keys tag [] = Inr []"
| "parse_keys tag (k # ks) =
     (case decode3 tag k of
        Inl e \<Rightarrow> Inl e
      | Inr (name, h, i) \<Rightarrow>
          (case parse_keys tag ks of
             Inl e \<Rightarrow> Inl e
           | Inr outs \<Rightarrow> Inr (\<lparr>hash = h, index = i\<rparr> # outs)))"

definition getMembers :: "kind \<Rightarrow> auctiondb \<Rightarrow> string \<Rightarrow> error + outpoint list" where
  "getMembers kd s name =
     (case min3 (member_id kd) name of
        Inl e \<Rightarrow> Inl e
      | Inr gte \<Rightarrow>
          (case max3 (member_id kd) name of
             Inl e \<Rightarrow> Inl e
           | Inr lte \<Rightarrow> parse_keys (member_id kd) (db_keys (db s) gte lte)))"

definition getBids :: "auctiondb \<Rightarrow> string \<Rightarrow> error + outpoint list" where
  "getBids = getMembers Bids"

definition getReveals :: "auctiondb \<Rightarrow> string \<Rightarrow> error + outpoint list" where
  "getReveals = getMembers Reveals"

definition hasMember :: "kind \<Rightarrow> auctiondb \<Rightarrow> string \<Rightarrow> outpoint \<Rightarrow> error + bool" where
  "hasMember kd s name outp =
     (if \<not> index outp < 2 ^ 32 then Inl AssertionError
      else
        (case encode3 (member_id kd) name (hash outp) (index outp) of
           Inl e \<Rightarrow> Inl e
         | Inr key \<Rightarrow> Inr (db_has (db s) key)))"

definition hasBid :: "auctiondb \<Rightarrow> string \<Rightarrow> outpoint \<Rightarrow> error + bool" where
  "hasBid = hasMember Bids"

definition hasReveal :: "auctiondb \<Rightarrow> string \<Rightarrow> outpoint \<Rightarrow> error + bool" where
  "hasReveal = hasMember Reveals"

text \<open>A freshly opened, empty AuctionDB.\<close>

definition empty_adb :: auctiondb where
  "empty_adb = \<lparr>db = [], batch = None, journal = [], adb_log = []\<rparr>"

section \<open>The HTTP server: event fan-out\<close>

text \<open>
  The payload of an event: \<^verbatim>\<open>{name, outpoint, value}\<close> (the name is \<^verbatim>\<open>null\<close> for a big
  spend) or the block statistics \<^verbatim>\<open>{count, opens, bids, reveals}\<close>.
\<close>

datatype payload =
  OutputData "string option" outpoint nat
| StatsData nat nat nat nat

type_synonym event = "string \<times> payload"

type_synonym socket = nat

text \<open>
  HTTPOptions, as its constructor and \<^verbatim>\<open>fromOptions\<close> fill it (the references \<^verbatim>\<open>network\<close>,
  \<^verbatim>\<open>logger\<close>, \<^verbatim>\<open>node\<close> and \<^verbatim>\<open>adb\<close> are left out). The class defines no property
  \<^verbatim>\<open>bigSpendValue\<close>, and \<^verbatim>\<open>fromOptions\<close> copies none: reading
  \<^verbatim>\<open>this.options.bigSpendValue\<close> gives \<^verbatim>\<open>undefined\<close> (\<open>None\<close>) whatever the caller passed.
\<close>

record HTTPOptions =
  apiKey :: string
  apiHash :: buffer
  noAuth :: bool
  cors :: bool
  maxTxs :: nat
  prefix :: "string option"
  host :: string
  port :: nat
  ssl :: bool
  keyFile :: "string option"
  certFile :: "string option"

definition bigSpendValue :: "HTTPOptions \<Rightarrow> nat option" where
  "bigSpendValue opts = None"

text \<open>\<^verbatim>\<open>value >= x\<close> on a number and a possibly undefined \<open>x\<close>: \<^verbatim>\<open>undefined\<close> converts to NaN,
  and every comparison with NaN is false.\<close>

fun js_ge :: "nat \<Rightarrow> nat option \<Rightarrow> bool" where
  "js_ge v None = False"
| "js_ge v (Some t) = (t \<le> v)"

text \<open>
  The server: its AuctionDB, its options, the sockets joined to each channel, every
  event emitted on the server (\<^verbatim>\<open>this.emit\<close>), every message sent to a socket
  (\<^verbatim>\<open>this.to\<close>), and the log.
\<close>

record http =
  adb :: auctiondb
  options :: HTTPOptions
  channels :: "string \<Rightarrow> socket list"
  emitted :: "event list"
  sent :: "(socket \<times> string \<times> payload) list"
  http_log :: "string list"

definition join :: "http \<Rightarrow> socket \<Rightarrow> string \<Rightarrow> http" where
  "join srv sock ch =
     (if sock \<in> set (channels srv ch) then srv
      else srv\<lparr>channels := (channels srv)(ch := channels srv ch @ [sock])\<rparr>)"

definition leave :: "http \<Rightarrow> socket \<Rightarrow> string \<Rightarrow> http" where
  "leave srv sock ch = srv\<lparr>channels := (channels srv)(ch := removeAll sock (channels srv ch))\<rparr>"

text \<open>\<^verbatim>\<open>this.channel(name)\<close> is \<^verbatim>\<open>null\<close> when no socket is joined; \<^verbatim>\<open>this.to(name, event, data)\<close>
  fires the event on every socket of the channel.\<close>

definition channel :: "http \<Rightarrow> string \<Rightarrow> socket list option" where
  "channel srv ch = (if channels srv ch = [] then None else Some (channels srv ch))"

definition to :: "http \<Rightarrow> string \<Rightarrow> string \<Rightarrow> payload \<Rightarrow> http" where
  "to srv ch event data = srv\<lparr>sent := sent srv @ map (\<lambda>sock. (sock, event, data)) (channels srv ch)\<rparr>"

text \<open>\<^verbatim>\<open>initSockets\<close>: the events that get a listener forwarding them to the channel.\<close>

definition events :: "string list" where
  "events = [''bid'', ''reveal'', ''register'', ''bid burned'', ''open'', ''big spend'']"

definition forward :: "http \<Rightarrow> string \<Rightarrow> payload \<Rightarrow> http" where
  "forward srv event data =
     (case channel srv ''auction-notify'' of
        None \<Rightarrow> srv
      | Some sockets \<Rightarrow> to srv ''auction-notify'' event data)"

text \<open>\<^verbatim>\<open>this.emit(event, data)\<close>: the listeners of the event run at once; the only listeners
  are those of \<^verbatim>\<open>initSockets\<close>.\<close>

definition emit :: "http \<Rightarrow> string \<Rightarrow> payload \<Rightarrow> http" where
  "emit srv event data =
     (let srv1 = srv\<lparr>emitted := emitted srv @ [(event, data)]\<rparr>
      in if event \<in> set events then forward srv1 event data else srv1)"

definition log_error :: "http \<Rightarrow> string \<Rightarrow> http" where
  "log_error srv msg = srv\<lparr>http_log := http_log srv @ [msg]\<rparr>"

section \<open>The block classifier: the chain's connect handler\<close>

datatype covenant_type =
  NONE | CLAIM | OPEN | BID | REVEAL | REDEEM | REGISTER | UPDATE | RENEW | TRANSFER
| FINALIZE | REVOKE

record covenant =
  ctype :: covenant_type
  items :: "buffer list"

record tx_output =
  covenant :: covenant
  out_value :: nat

record tx =
  txid :: buffer
  outputs :: "tx_output list"

record block =
  bhash :: buffer
  txs :: "tx list"

record namestate =
  ns_name :: buffer

record coin =
  coin_value :: nat

text \<open>
  What the handler gets from outside: the chain database (\<^verbatim>\<open>getNameState\<close>, \<^verbatim>\<open>getCoin\<close>) and
  the fate of its store writes: whether the \<^verbatim>\<open>db.put\<close> of the tip succeeds, and whether the
  batch written for a given outpoint commits.
\<close>

record env =
  getNameState :: "buffer \<Rightarrow> namestate option"
  getCoin :: "buffer \<Rightarrow> nat \<Rightarrow> coin option"
  tip_ok :: bool
  commit_ok :: "outpoint \<Rightarrow> bool"

text \<open>\<^verbatim>\<open>covenant.getHash(0)\<close>: the first item, which must have 32 bytes.\<close>

definition getHash0 :: "covenant \<Rightarrow> error + buffer" where
  "getHash0 c =
     (case items c of
        [] \<Rightarrow> Inl AssertionError
      | item # _ \<Rightarrow> if length item = 32 then Inr item else Inl AssertionError)"

text \<open>\<^verbatim>\<open>ns.name.toString('ascii')\<close> keeps the low seven bits of every byte.\<close>

definition toString_ascii :: "buffer \<Rightarrow> string" where
  "toString_ascii b = map (\<lambda>x. char_of (unat x mod 128)) b"

text \<open>
  The identifiers that are bound where the handler runs: the module's constants,
  classes and functions, the handler's parameters and its local variables. The
  AuctionDB is reachable as the property \<^verbatim>\<open>this.adb\<close> only.
\<close>

definition http_scope :: "string list" where
  "http_scope =
     [''assert'', ''path'', ''Server'', ''Validator'', ''base58'', ''random'', ''sha256'',
      ''Network'', ''safeEqual'', ''HTTP'', ''HTTPOptions'', ''enforce'', ''outpointToJSON'',
      ''entry'', ''block'', ''view'', ''stats'', ''tx'', ''txid'', ''i'', ''output'',
      ''covenant'', ''value'', ''outpoint'', ''nameHash'', ''ns'', ''name'', ''bidCount'',
      ''revealCount'', ''bids'']"

text \<open>The loop over the recorded bids of the REGISTER branch: a bid whose coin is
  absent is skipped, a bid whose coin is found is reported as burned, with the value
  of the REGISTER output.\<close>

fun burn_loop :: "env \<Rightarrow> http \<Rightarrow> string \<Rightarrow> nat \<Rightarrow> outpoint list \<Rightarrow> http" where
  "burn_loop e srv name v [] = srv"
| "burn_loop e srv name v (bid # bids) =
     (case getCoin e (hash bid) (index bid) of
        None \<Rightarrow> burn_loop e srv name v bids
      | Some c \<Rightarrow>
          burn_loop e
            (emit srv ''bid burned''
               (OutputData (Some name) \<lparr>hash = hash bid, index = index bid\<rparr> v))
            name v bids)"

text \<open>
  The REGISTER branch. \<open>scope\<close> is the list of bound identifiers: the bids are read
  through the free identifier \<^verbatim>\<open>adb\<close>, which throws a ReferenceError when it is unbound.
  \<^verbatim>\<open>bidCount.eq(revealCount)\<close> throws a TypeError when either count is \<^verbatim>\<open>null\<close>.
\<close>

definition register_branch ::
  "string list \<Rightarrow> env \<Rightarrow> http \<Rightarrow> string \<Rightarrow> outpoint \<Rightarrow> nat \<Rightarrow> http \<times> error option" where
  "register_branch scope e srv name outp v =
     (case getBidCount (adb srv) name of
        Inl err \<Rightarrow> (srv, Some err)
      | Inr bidCount \<Rightarrow>
          (case getRevealCount (adb srv) name of
             Inl err \<Rightarrow> (srv, Some err)
           | Inr revealCount \<Rightarrow>
               (let srv1 = emit srv ''register'' (OutputData (Some name) outp v) in
                case (bidCount, revealCount) of
                  (None, _) \<Rightarrow> (srv1, Some TypeError)
                | (Some bc, None) \<Rightarrow> (srv1, Some TypeError)
                | (Some bc, Some rc) \<Rightarrow>
                    if bc = rc then (srv1, None)
                    else if rc > bc
                    then (log_error srv1
                            ''Invalid database state: more reveals than bids for %s.'', None)
                    else if ''adb'' \<notin> set scope then (srv1, Some (ReferenceError ''adb''))
                    else
                      (case getBids (adb srv1) name of
                         Inl err \<Rightarrow> (srv1, Some err)
                       | Inr bids \<Rightarrow> (burn_loop e srv1 name v bids, None)))))"

text \<open>One output of a transaction: the body of the inner loop. The result carries
  the exception that ended the handler, if any.\<close>

definition process_output ::
  "string list \<Rightarrow> env \<Rightarrow> http \<Rightarrow> buffer \<Rightarrow> nat \<Rightarrow> tx_output \<Rightarrow> http \<times> error option" where
  "process_output scope e srv tid i out =
     (let cov = covenant out; v = out_value out; outp = \<lparr>hash = tid, index = i\<rparr> in
      if ctype cov = NONE
      then (if js_ge v (bigSpendValue (options srv))
            then (emit srv ''big spend'' (OutputData None outp v), None)
            else (srv, None))
      else
        (case getHash0 cov of
           Inl err \<Rightarrow> (srv, Some err)
         | Inr nameHash \<Rightarrow>
             (case getNameState e nameHash of
                None \<Rightarrow> (log_error srv ''Expected namestate for %x.'', None)
              | Some ns \<Rightarrow>
                  (let name = toString_ascii (ns_name ns) in
                   if ctype cov = BID
                   then
                     (case addBid (adb srv) name outp (commit_ok e outp) of
                        (a, Inl err) \<Rightarrow> (srv\<lparr>adb := a\<rparr>, Some err)
                      | (a, Inr indexed) \<Rightarrow>
                          (let srv1 = srv\<lparr>adb := a\<rparr>;
                               srv2 = (if indexed = JTrue then srv1
                                       else log_error srv1 ''Problem indexing bid for %x.'')
                           in (emit srv2 ''bid'' (OutputData (Some name) outp v), None)))
                   else if ctype cov = REVEAL
                   then
                     (case addReveal (adb srv) name outp (commit_ok e outp) of
                        (a, Inl err) \<Rightarrow> (srv\<lparr>adb := a\<rparr>, Some err)
                      | (a, Inr indexed) \<Rightarrow>
                          (let srv1 = srv\<lparr>adb := a\<rparr>;
                               srv2 = (if indexed = JTrue then srv1
                                       else log_error srv1 ''Problem indexing reveal for %x.'')
                           in (emit srv2 ''reveal'' (OutputData (Some name) outp v), None)))
                   else if ctype cov = REGISTER
                   then register_branch scope e srv name outp v
                   else if ctype cov = REVOKE
                   then (emit srv ''revoke'' (OutputData (Some name) outp v), None)
                   else (srv, None)))))"

text \<open>Both iterations: the outputs of a transaction with their positions, and the
  transactions of the block. An exception ends both.\<close>

fun process_outputs ::
  "string list \<Rightarrow> env \<Rightarrow> http \<Rightarrow> buffer \<Rightarrow> nat \<Rightarrow> tx_output list \<Rightarrow> http \<times> error option" where
  "process_outputs scope e srv tid i [] = (srv, None)"
| "process_outputs scope e srv tid i (out # outs) =
     (case process_output scope e srv tid i out of
        (srv1, Some err) \<Rightarrow> (srv1, Some err)
      | (srv1, None) \<Rightarrow> process_outputs scope e srv1 tid (Suc i) outs)"

fun process_txs :: "string list \<Rightarrow> env \<Rightarrow> http \<Rightarrow> tx list \<Rightarrow> http \<times> error option" where
  "process_txs scope e srv [] = (srv, None)"
| "process_txs scope e srv (t # ts) =
     (case process_outputs scope e srv (txid t) 0 (outputs t) of
        (srv1, Some err) \<Rightarrow> (srv1, Some err)
      | (srv1, None) \<Rightarrow> process_txs scope e srv1 ts)"

text \<open>The handler of the chain's \<^verbatim>\<open>connect\<close> event: the tip is written first, then the
  block is walked, then the (never incremented) statistics are emitted.\<close>

definition connect_in :: "string list \<Rightarrow> env \<Rightarrow> http \<Rightarrow> block \<Rightarrow> http \<times> error option" where
  "connect_in scope e srv blk =
     (let srv0 = srv\<lparr>adb := fst (putTip (adb srv) (bhash blk) (tip_ok e))\<rparr> in
      case process_txs scope e srv0 (txs blk) of
        (srv1, Some err) \<Rightarrow> (srv1, Some err)
      | (srv1, None) \<Rightarrow> (emit srv1 ''block stats'' (StatsData 0 0 0 0), None))"

definition connect :: "env \<Rightarrow> http \<Rightarrow> block \<Rightarrow> http \<times> error option" where
  "connect = connect_in http_scope"

section \<open>Vocabulary of the proofs\<close>

text \<open>
  The keys in closed form. \<open>name_bytes\<close> is the \<^verbatim>\<open>ascii\<close> field of a name, \<open>be32\<close> the
  \<^verbatim>\<open>uint32\<close> field; \<open>ckey\<close> is the counter key and \<open>mkey\<close> the membership key of an
  outpoint. A name is valid when the key compiler accepts it, an outpoint when its hash
  has 32 bytes and its index is a uint32. \<open>count_or_zero\<close> reads a \<^verbatim>\<open>null\<close> count as zero,
  as \<^verbatim>\<open>addBid\<close> and \<^verbatim>\<open>addReveal\<close> do.
\<close>

definition name_bytes :: "string \<Rightarrow> buffer" where
  "name_bytes name = of_nat (length name) # map (\<lambda>c. of_nat (of_char c)) name"

definition be32 :: "nat \<Rightarrow> buffer" where
  "be32 v = [of_nat (v div 2 ^ 24), of_nat (v div 2 ^ 16), of_nat (v div 2 ^ 8), of_nat v]"

definition ckey :: "kind \<Rightarrow> string \<Rightarrow> buffer" where
  "ckey kd name = count_id kd # name_bytes name"

definition mkey :: "kind \<Rightarrow> string \<Rightarrow> outpoint \<Rightarrow> buffer" where
  "mkey kd name outp = member_id kd # name_bytes name @ hash outp @ be32 (index outp)"

definition valid_name :: "string \<Rightarrow> bool" where
  "valid_name name = (length name \<le> 255)"

definition valid_outpoint :: "outpoint \<Rightarrow> bool" where
  "valid_outpoint outp = (length (hash outp) = 32 \<and> index outp < 2 ^ 32)"

definition count_or_zero :: "int option \<Rightarrow> int" where
  "count_or_zero c = (case c of None \<Rightarrow> 0 | Some n \<Rightarrow> n)"

text \<open>The bounds of the range scan of a name, and the keys between them.\<close>

definition range_lo :: "kind \<Rightarrow> string \<Rightarrow> buffer" where
  "range_lo kd name = member_id kd # name_bytes name @ replicate 32 0 @ [0, 0, 0, 0]"

definition range_hi :: "kind \<Rightarrow> string \<Rightarrow> buffer" where
  "range_hi kd name = member_id kd # name_bytes name @ replicate 32 0xFF @ [0xFF, 0xFF, 0xFF, 0xFF]"

definition in_range :: "kind \<Rightarrow> string \<Rightarrow> buffer \<Rightarrow> bool" where
  "in_range kd name k = (range_lo kd name \<le> k \<and> k \<le> range_hi kd name)"

text \<open>
  The keys of the store. A key is well formed when it is the tip key, a counter key or a
  membership key. The invariant of the index: no batch is pending, the keys are distinct
  and well formed, and every counter equals the number of membership keys of its name.
\<close>

definition keys_of :: "auctiondb \<Rightarrow> buffer set" where
  "keys_of s = fst ` set (db s)"

definition wf_key :: "buffer \<Rightarrow> bool" where
  "wf_key k =
     (k = layout_T \<or> (\<exists>kd n. valid_name n \<and> k = ckey kd n) \<or>
      (\<exists>kd n outp. valid_name n \<and> valid_outpoint outp \<and> k = mkey kd n outp))"

definition wf_store :: "auctiondb \<Rightarrow> bool" where
  "wf_store s = (\<forall>k \<in> keys_of s. wf_key k)"

definition range_keys :: "kind \<Rightarrow> auctiondb \<Rightarrow> string \<Rightarrow> buffer set" where
  "range_keys kd s name = {k \<in> keys_of s. in_range kd name k}"

definition stored_count :: "kind \<Rightarrow> auctiondb \<Rightarrow> string \<Rightarrow> int" where
  "stored_count kd s name = count_or_zero (map_option BN_decode (db_get (db s) (ckey kd name)))"

definition inv :: "auctiondb \<Rightarrow> bool" where
  "inv s =
     (batch s = None \<and> distinct (map fst (db s)) \<and> wf_store s \<and>
      (\<forall>kd name. valid_name name \<longrightarrow> stored_count kd s name = int (card (range_keys kd s name))))"

text \<open>
  Sequences of index operations, each with the fate of its commit. A sequence is guarded
  when every add is of an outpoint that is not a member at that moment and every remove is
  of an outpoint that is one.
\<close>

datatype op = Add kind string outpoint | Remove kind string outpoint

fun exec :: "auctiondb \<Rightarrow> op \<Rightarrow> bool \<Rightarrow> auctiondb \<times> (error + jsval)" where
  "exec s (Add kd name outp) ok = addMember kd s name outp ok"
| "exec s (Remove kd name outp) ok = removeMember kd s name outp ok"

fun run :: "auctiondb \<Rightarrow> (op \<times> bool) list \<Rightarrow> auctiondb" where
  "run s [] = s"
| "run s ((opn, ok) # rest) = run (fst (exec s opn ok)) rest"

fun admissible :: "auctiondb \<Rightarrow> op \<Rightarrow> bool" where
  "admissible s (Add kd name outp) = (hasMember kd s name outp = Inr False)"
| "admissible s (Remove kd name outp) = (hasMember kd s name outp = Inr True)"

fun guarded :: "auctiondb \<Rightarrow> (op \<times> bool) list \<Rightarrow> bool" where
  "guarded s [] = True"
| "guarded s ((opn, ok) # rest) = (admissible s opn \<and> guarded (fst (exec s opn ok)) rest)"

text \<open>Sequences of adds with arguments that the key compiler accepts, and the keys
  that their committed batches write.\<close>

fun valid_add :: "op \<Rightarrow> bool" where
  "valid_add (Add kd name outp) = (valid_name name \<and> valid_outpoint outp)"
| "valid_add (Remove kd name outp) = False"

definition added_keys :: "(op \<times> bool) list \<Rightarrow> buffer set" where
  "added_keys ops =
     {k. \<exists>kd name outp. (Add kd name outp, True) \<in> set ops
          \<and> (k = ckey kd name \<or> k = mkey kd name outp)}"

text \<open>
  The handler's trace. \<open>deliveries socks evs\<close> is what the listeners of \<^verbatim>\<open>initSockets\<close> send
  for the events \<open>evs\<close> when \<open>socks\<close> are the sockets of the channel. \<open>grows E s s'\<close> says that
  from \<open>s\<close> to \<open>s'\<close> the channels and options are kept, the new events have their names in
  \<open>E\<close> and were sent as \<open>deliveries\<close> says, and the store took committed batches only.
\<close>

definition deliveries :: "socket list \<Rightarrow> event list \<Rightarrow> (socket \<times> string \<times> payload) list" where
  "deliveries socks evs =
     concat (map (\<lambda>(ev, d). if ev \<in> set events then map (\<lambda>sock. (sock, ev, d)) socks else []) evs)"

fun is_batch :: "db_write \<Rightarrow> bool" where
  "is_batch (WBatch ops) = True"
| "is_batch (WPut k v) = False"

definition grows :: "string set \<Rightarrow> http \<Rightarrow> http \<Rightarrow> bool" where
  "grows E s s' =
     (channels s' = channels s \<and> options s' = options s \<and>
      (\<exists>new. emitted s' = emitted s @ new \<and> fst ` set new \<subseteq> E \<and>
             sent s' = sent s @ deliveries (channels s ''auction-notify'') new) \<and>
      (\<exists>bs. journal (adb s') = journal (adb s) @ bs \<and> list_all is_batch bs))"

definition handler_events :: "string list \<Rightarrow> string set" where
  "handler_events scope =
     {''big spend'', ''bid'', ''reveal'', ''register'', ''revoke''} \<union>
     (if ''adb'' \<in> set scope then {''bid burned''} else {})"

text \<open>
  Concrete inputs. \<open>demo_server\<close> has an empty index and one consumer, socket 1, joined to
  the channel. \<open>demo_chain\<close> resolves every name hash to the name \<^verbatim>\<open>foo\<close>, has no coin, and
  lets every write succeed. \<open>block_with t v\<close> is a block of one transaction with one output
  of covenant type \<open>t\<close> and value \<open>v\<close>. \<open>burn_server\<close> has indexed two bids and one reveal
  for \<^verbatim>\<open>foo\<close>; on \<open>burn_chain\<close> the coin of the first bid exists and the coin of the second,
  the bid that was not revealed, is absent.
\<close>

definition demo_options :: HTTPOptions where
  "demo_options =
     \<lparr>apiKey = ''secret'', apiHash = [], noAuth = False, cors = False, maxTxs = 100,
      prefix = None, host = ''127.0.0.1'', port = 8080, ssl = False,
      keyFile = None, certFile = None\<rparr>"

definition demo_server :: http where
  "demo_server =
     \<lparr>adb = empty_adb, options = demo_options,
      channels = (\<lambda>ch. if ch = ''auction-notify'' then [1] else []),
      emitted = [], sent = [], http_log = []\<rparr>"

definition demo_chain :: env where
  "demo_chain =
     \<lparr>getNameState = (\<lambda>h. Some \<lparr>ns_name = [0x66, 0x6F, 0x6F]\<rparr>),
      getCoin = (\<lambda>h i. None), tip_ok = True, commit_ok = (\<lambda>outp. True)\<rparr>"

definition block_with :: "covenant_type \<Rightarrow> nat \<Rightarrow> block" where
  "block_with t v =
     \<lparr>bhash = replicate 32 0xAA,
      txs = [\<lparr>txid = replicate 32 0x11,
              outputs = [\<lparr>covenant = \<lparr>ctype = t, items = [replicate 32 0x01]\<rparr>,
                          out_value = v\<rparr>]\<rparr>]\<rparr>"

definition bid1 :: outpoint where
  "bid1 = \<lparr>hash = replicate 32 0x21, index = 0\<rparr>"

definition bid2 :: outpoint where
  "bid2 = \<lparr>hash = replicate 32 0x22, index = 0\<rparr>"

definition reveal1 :: outpoint where
  "reveal1 = \<lparr>hash = replicate 32 0x31, index = 0\<rparr>"

definition burn_server :: http where
  "burn_server =
     demo_server\<lparr>adb := run empty_adb
       [(Add Bids ''foo'' bid1, True), (Add Bids ''foo'' bid2, True),
        (Add Reveals ''foo'' reveal1, True)]\<rparr>"

definition burn_chain :: env where
  "burn_chain =
     demo_chain\<lparr>getCoin :=
       (\<lambda>h i. if h = hash bid1 \<and> i = index bid1 then Some \<lparr>coin_value = 2000\<rparr> else None)\<rparr>"

section \<open>The key compiler\<close>

lemma encode1_eq:
  "encode1 tag name = (if valid_name name then Inr (tag # name_bytes name) else Inl KeyError)"
  by (simp add: encode1_def write_ascii_def name_bytes_def valid_name_def)

lemma encode3_eq:
  "encode3 tag name h i =
     (if valid_name name \<and> length h = 32 \<and> i < 2 ^ 32
      then Inr (tag # name_bytes name @ h @ be32 i) else Inl KeyError)"
  by (simp add: encode3_def write_ascii_def write_hash256_def write_uint32_def
      name_bytes_def be32_def valid_name_def)

lemma getCount_eq:
  "getCount kd s name =
     (if valid_name name then Inr (map_option BN_decode (db_get (db s) (ckey kd name)))
      else Inl KeyError)"
  by (simp add: getCount_def encode1_eq ckey_def split: option.splits)

lemma addMember_valid:
  assumes "valid_name name" "valid_outpoint outp" "batch s = None"
  shows "addMember kd s name outp ok =
     (if ok
      then (s\<lparr>db := AList.update (mkey kd name outp) EMPTY
                    (AList.update (ckey kd name)
                       (BN_encode (count_or_zero (map_option BN_decode (db_get (db s) (ckey kd name))) + 1))
                       (db s)),
              batch := None,
              journal := journal s @
                [WBatch [Put (ckey kd name)
                           (BN_encode (count_or_zero (map_option BN_decode (db_get (db s) (ckey kd name))) + 1)),
                         Put (mkey kd name outp) EMPTY]]\<rparr>, Inr JTrue)
      else (s\<lparr>batch := None, adb_log := adb_log s @ [''Error writing to db...'']\<rparr>, Inr JNull))"
  using assms
  by (simp add: addMember_def getCount_eq encode1_eq encode3_eq start_def put_def commit_def
      valid_outpoint_def ckey_def mkey_def count_or_zero_def apply_batch_def Let_def
      split: option.splits)

lemma removeMember_valid:
  assumes "valid_name name" "valid_outpoint outp" "batch s = None"
  shows "removeMember kd s name outp ok =
     (case db_get (db s) (ckey kd name) of
        None \<Rightarrow> (s, Inr JNull)
      | Some raw \<Rightarrow>
      if ok
      then (s\<lparr>db := AList.delete (mkey kd name outp)
                    (AList.update (ckey kd name) (BN_encode (BN_decode raw - 1)) (db s)),
              batch := None,
              journal := journal s @
                [WBatch [Put (ckey kd name) (BN_encode (BN_decode raw - 1)),
                         Del (mkey kd name outp)]]\<rparr>, Inr JTrue)
      else (s\<lparr>batch := None, adb_log := adb_log s @ [''Error writing to db...'']\<rparr>, Inr JFalse))"
  using assms
  by (simp add: removeMember_def getCount_eq encode1_eq encode3_eq start_def put_def del_def commit_def
      valid_outpoint_def ckey_def mkey_def apply_batch_def Let_def
      split: option.splits)

lemma length_name_bytes [simp]: "length (name_bytes n) = Suc (length n)"
  by (simp add: name_bytes_def)

lemma byte_of_char_inj: "(of_nat (of_char c) :: byte) = of_nat (of_char d) \<Longrightarrow> c = d"
proof -
  assume "(of_nat (of_char c) :: byte) = of_nat (of_char d)"
  then have "unat (of_nat (of_char c) :: byte) = unat (of_nat (of_char d) :: byte)" by simp
  then show "c = d" by (simp add: unat_of_nat)
qed

lemma byte_of_len_inj:
  "m \<le> 255 \<Longrightarrow> n \<le> 255 \<Longrightarrow> (of_nat m :: byte) = of_nat n \<Longrightarrow> m = n"
proof -
  assume a: "m \<le> 255" "n \<le> 255" and "(of_nat m :: byte) = of_nat n"
  then have "unat (of_nat m :: byte) = unat (of_nat n :: byte)" by simp
  with a show "m = n" by (simp add: unat_of_nat)
qed

lemma name_bytes_append_inj:
  assumes "valid_name n1" "valid_name n2" "name_bytes n1 @ r1 = name_bytes n2 @ r2"
  shows "n1 = n2 \<and> r1 = r2"
proof -
  from assms have len: "length n1 = length n2"
    by (auto simp: name_bytes_def valid_name_def dest: byte_of_len_inj)
  from assms(3) have "map (\<lambda>c. of_nat (of_char c) :: byte) n1 @ r1 = map (\<lambda>c. of_nat (of_char c)) n2 @ r2"
    by (simp add: name_bytes_def)
  with len have m: "map (\<lambda>c. of_nat (of_char c) :: byte) n1 = map (\<lambda>c. of_nat (of_char c)) n2" and r: "r1 = r2"
    by auto
  have "inj (\<lambda>c. of_nat (of_char c) :: byte)"
    by (rule injI) (erule byte_of_char_inj)
  with m have "n1 = n2" by (simp add: inj_map_eq_map)
  with r show ?thesis by simp
qed

lemma unat_byte_of_nat: "unat (of_nat n :: byte) = n mod 256"
  by (simp add: unat_of_nat)

lemma be32_arith:
  fixes i :: nat
  assumes "i < 4294967296"
  shows "((i div 16777216 mod 256 * 256 + i div 65536 mod 256) * 256 + i div 256 mod 256) * 256
           + i mod 256 = i"
proof -
  define a where "a = i div 256"
  define b where "b = a div 256"
  define c where "c = b div 256"
  have e1: "i div 65536 = b" unfolding b_def a_def by (simp add: div_mult2_eq)
  have e2: "i div 16777216 = c" unfolding c_def b_def a_def by (simp add: div_mult2_eq)
  have c: "c < 256" using assms unfolding e2 [symmetric] by simp
  have i: "i = a * 256 + i mod 256" unfolding a_def by simp
  have a: "a = b * 256 + a mod 256" unfolding b_def by simp
  have b: "b = c * 256 + b mod 256" unfolding c_def by simp
  have "((c mod 256 * 256 + b mod 256) * 256 + a mod 256) * 256 + i mod 256 = i"
    using c i a b by simp
  then show ?thesis unfolding e1 e2 a_def [symmetric] .
qed

lemma readU32BE_be32: "i < 2 ^ 32 \<Longrightarrow> readU32BE (be32 i @ r) = i"
  using be32_arith [of i] by (simp add: readU32BE_def be32_def unat_byte_of_nat)

lemma be32_inj: "i < 2 ^ 32 \<Longrightarrow> j < 2 ^ 32 \<Longrightarrow> be32 i = be32 j \<Longrightarrow> i = j"
  by (metis readU32BE_be32)

lemma length_be32 [simp]: "length (be32 i) = 4"
  by (simp add: be32_def)

lemma char_of_byte_of_char: "char_of (unat (of_nat (of_char c) :: byte)) = c"
  by (simp add: unat_of_nat)

lemma read_ascii_name_bytes:
  "valid_name n \<Longrightarrow> read_ascii (name_bytes n @ r) = Inr (n, r)"
  by (simp add: read_ascii_def name_bytes_def valid_name_def unat_of_nat char_of_byte_of_char
      o_def map_idI)

lemma decode3_mkey:
  "valid_name n \<Longrightarrow> valid_outpoint outp \<Longrightarrow>
   decode3 (member_id kd) (mkey kd n outp) = Inr (n, hash outp, index outp)"
  by (simp add: decode3_def mkey_def read_ascii_name_bytes read_hash256_def read_uint32_def
      valid_outpoint_def readU32BE_be32 [where r = "[]", simplified])

section \<open>Bytewise order and the range of a name\<close>

lemma append_le_append [simp]: "(p @ a \<le> p @ b) = (a \<le> (b :: 'a :: linorder list))"
  by (induction p) auto

lemma between_prefix:
  fixes k :: "'a :: linorder list"
  shows "p @ a \<le> k \<Longrightarrow> k \<le> p @ b \<Longrightarrow> \<exists>r. k = p @ r"
proof (induction p arbitrary: k)
  case Nil
  then show ?case by simp
next
  case (Cons x p)
  then show ?case by (cases k) auto
qed

lemma replicate_zero_le: "length x = n \<Longrightarrow> replicate n (0 :: byte) \<le> x"
  by (induction x arbitrary: n) (auto simp: word_neq_0_conv)

lemma byte_le_ff: "(b :: byte) \<le> 0xFF"
proof -
  have "(0xFF :: byte) = - 1" by simp
  then show ?thesis by (simp only: word_order.extremum)
qed

lemma le_replicate_ff: "length x = n \<Longrightarrow> x \<le> replicate n (0xFF :: byte)"
proof (induction x arbitrary: n)
  case Nil
  then show ?case by simp
next
  case (Cons a x)
  have "a < 0xFF \<or> a = 0xFF" using byte_le_ff [of a] by (simp add: le_less)
  with Cons show ?case by auto
qed

lemma be32_max: "be32 0xFFFFFFFF = [0xFF, 0xFF, 0xFF, 0xFF]"
  by (simp add: be32_def)

lemma min3_eq:
  "min3 (member_id kd) name = (if valid_name name then Inr (range_lo kd name) else Inl KeyError)"
  by (simp add: min3_def encode3_eq be32_def range_lo_def)

lemma max3_eq:
  "max3 (member_id kd) name = (if valid_name name then Inr (range_hi kd name) else Inl KeyError)"
  by (simp add: max3_def encode3_eq be32_max range_hi_def)

lemma zeros36: "replicate 32 (0 :: byte) @ [0, 0, 0, 0] = replicate 36 0"
  by (simp add: numeral_eq_Suc)

lemma ffs36: "replicate 32 (0xFF :: byte) @ [0xFF, 0xFF, 0xFF, 0xFF] = replicate 36 0xFF"
  by (simp add: numeral_eq_Suc)

lemma mkey_in_range:
  "valid_outpoint outp \<Longrightarrow> in_range kd name (mkey kd name outp)"
  by (simp add: in_range_def range_lo_def range_hi_def mkey_def valid_outpoint_def
      zeros36 ffs36 replicate_zero_le le_replicate_ff)

lemma in_range_prefix:
  assumes "in_range kd name k"
  shows "\<exists>r. k = member_id kd # name_bytes name @ r"
  using between_prefix [of "member_id kd # name_bytes name" "replicate 32 0 @ [0, 0, 0, 0]" k
      "replicate 32 0xFF @ [0xFF, 0xFF, 0xFF, 0xFF]"] assms
  by (simp add: in_range_def range_lo_def range_hi_def)

lemma member_id_inj: "member_id a = member_id b \<Longrightarrow> a = b"
  by (cases a; cases b) simp_all

lemma member_id_neq_count_id: "member_id a \<noteq> count_id b"
  by (cases a; cases b) simp_all

lemma layout_T_not_in_range: "\<not> in_range kd name layout_T"
  using in_range_prefix [of kd name layout_T]
  by (cases kd) (auto simp: layout_T_def)

lemma ckey_not_in_range: "\<not> in_range kd name (ckey kd' name')"
  using in_range_prefix [of kd name "ckey kd' name'"] member_id_neq_count_id [of kd kd']
  by (auto simp: ckey_def)

lemma mkey_in_range_iff:
  assumes "valid_name name" "valid_name name'" "valid_outpoint outp"
  shows "in_range kd name (mkey kd' name' outp) \<longleftrightarrow> kd' = kd \<and> name' = name"
proof
  assume "in_range kd name (mkey kd' name' outp)"
  then obtain r where "mkey kd' name' outp = member_id kd # name_bytes name @ r"
    using in_range_prefix by blast
  then have "member_id kd' = member_id kd"
    and "name_bytes name' @ hash outp @ be32 (index outp) = name_bytes name @ r"
    by (simp_all add: mkey_def)
  with assms show "kd' = kd \<and> name' = name"
    using member_id_inj name_bytes_append_inj by blast
next
  assume "kd' = kd \<and> name' = name"
  with assms show "in_range kd name (mkey kd' name' outp)"
    by (simp add: mkey_in_range)
qed

lemma mkey_inj:
  assumes "valid_name n" "valid_name n'" "valid_outpoint a" "valid_outpoint b"
    and "mkey kd n a = mkey kd' n' b"
  shows "kd = kd' \<and> n = n' \<and> a = b"
proof -
  from assms(5) have k: "member_id kd = member_id kd'"
    and "name_bytes n @ hash a @ be32 (index a) = name_bytes n' @ hash b @ be32 (index b)"
    by (simp_all add: mkey_def)
  with assms have n: "n = n'" and "hash a @ be32 (index a) = hash b @ be32 (index b)"
    using name_bytes_append_inj by blast+
  with assms have "hash a = hash b" "be32 (index a) = be32 (index b)"
    by (simp_all add: valid_outpoint_def)
  with assms have "a = b"
    by (simp add: valid_outpoint_def be32_inj)
  with k n show ?thesis by (simp add: member_id_inj)
qed

lemma ckey_inj:
  assumes "valid_name n" "valid_name n'" "ckey kd n = ckey kd' n'"
  shows "kd = kd' \<and> n = n'"
proof -
  from assms(3) have "count_id kd = count_id kd'" "name_bytes n @ [] = name_bytes n' @ []"
    by (simp_all add: ckey_def)
  with assms show ?thesis
    using name_bytes_append_inj [of n n' "[]" "[]"] by (cases kd; cases kd') simp_all
qed

lemma ckey_neq_mkey: "ckey kd n \<noteq> mkey kd' n' outp"
  using member_id_neq_count_id [of kd' kd] by (auto simp: ckey_def mkey_def)

lemma getMembers_eq:
  "getMembers kd s name =
     (if valid_name name
      then parse_keys (member_id kd) (sort (filter (in_range kd name) (map fst (db s))))
      else Inl KeyError)"
  unfolding getMembers_def min3_eq max3_eq db_keys_def in_range_def by simp

section \<open>Counters and parsed keys\<close>

lemma be_value_snoc: "be_value (xs @ [b]) = be_value xs * 256 + unat b"
  by (simp add: be_value_def)

lemma be_value_be_digits: "be_value (be_digits n) = n"
proof (induction n rule: be_digits.induct)
  case (1 n)
  show ?case
  proof (cases "n = 0")
    case True
    then show ?thesis by (subst be_digits.simps) (simp add: be_value_def)
  next
    case False
    with 1 have "be_value (be_digits (n div 256)) = n div 256" by simp
    with False show ?thesis
      by (subst be_digits.simps) (simp add: be_value_snoc unat_byte_of_nat)
  qed
qed

lemma BN_decode_encode: "BN_decode (BN_encode c) = \<bar>c\<bar>"
proof (cases "be_digits (nat \<bar>c\<bar>) = []")
  case True
  then have "be_value (be_digits (nat \<bar>c\<bar>)) = 0" by (simp add: be_value_def)
  then have "nat \<bar>c\<bar> = 0" by (simp add: be_value_be_digits)
  with True show ?thesis by (simp add: BN_decode_def BN_encode_def be_value_def)
next
  case False
  then show ?thesis by (simp add: BN_decode_def BN_encode_def be_value_be_digits)
qed

lemma BN_decode_nonneg: "0 \<le> BN_decode raw"
  by (simp add: BN_decode_def)

lemma parse_keys_mkeys:
  assumes "valid_name name" "\<forall>outp \<in> set outs. valid_outpoint outp"
  shows "parse_keys (member_id kd) (map (mkey kd name) outs) = Inr outs"
  using assms(2)
proof (induction outs)
  case Nil
  then show ?case by simp
next
  case (Cons a outs)
  with assms(1) show ?case by (simp add: decode3_mkey)
qed

lemma keys_as_mkeys:
  assumes "\<forall>k \<in> set ks. \<exists>outp. valid_outpoint outp \<and> k = mkey kd name outp"
  shows "\<exists>outs. (\<forall>outp \<in> set outs. valid_outpoint outp) \<and> ks = map (mkey kd name) outs"
  using assms
proof (induction ks)
  case Nil
  show ?case by (rule exI [of _ "[]"]) simp
next
  case (Cons k ks)
  have "\<forall>k \<in> set ks. \<exists>outp. valid_outpoint outp \<and> k = mkey kd name outp"
    using Cons.prems by (simp only: list.set ball_simps insert_iff) (erule conjunct2)
  from Cons.IH [OF this] obtain outs
    where o1: "\<forall>outp \<in> set outs. valid_outpoint outp" and o2: "ks = map (mkey kd name) outs"
    by (elim exE conjE)
  have "\<exists>outp. valid_outpoint outp \<and> k = mkey kd name outp"
    using Cons.prems by (simp only: list.set ball_simps insert_iff)
  then obtain outp where p1: "valid_outpoint outp" and p2: "k = mkey kd name outp"
    by (elim exE conjE)
  show ?case
  proof (rule exI [of _ "outp # outs"], intro conjI)
    show "\<forall>x \<in> set (outp # outs). valid_outpoint x" using o1 p1 by simp
    show "k # ks = map (mkey kd name) (outp # outs)" unfolding o2 p2 by simp
  qed
qed

section \<open>The invariant of the index\<close>

lemma wf_key_in_range:
  assumes "wf_key k" "valid_name name" "in_range kd name k"
  shows "\<exists>outp. valid_outpoint outp \<and> k = mkey kd name outp"
proof -
  from assms(1) consider "k = layout_T" | kd' n where "k = ckey kd' n"
    | kd' n outp where "valid_name n" "valid_outpoint outp" "k = mkey kd' n outp"
    unfolding wf_key_def by blast
  then show ?thesis
  proof cases
    case 1
    with assms(3) show ?thesis by (simp add: layout_T_not_in_range)
  next
    case 2
    with assms(3) show ?thesis by (simp add: ckey_not_in_range)
  next
    case 3
    with assms have "kd' = kd \<and> n = name" by (simp add: mkey_in_range_iff)
    with 3 show ?thesis by blast
  qed
qed

lemma set_range_scan:
  "set (sort (filter (in_range kd name) (map fst (db s)))) = range_keys kd s name"
  by (auto simp: range_keys_def keys_of_def)

lemma getMembers_wf:
  assumes "wf_store s" "valid_name name"
  shows "\<exists>outs. getMembers kd s name = Inr outs
           \<and> (\<forall>outp \<in> set outs. valid_outpoint outp)
           \<and> map (mkey kd name) outs = sort (filter (in_range kd name) (map fst (db s)))"
proof -
  let ?ks = "sort (filter (in_range kd name) (map fst (db s)))"
  have "\<forall>k \<in> set ?ks. \<exists>outp. valid_outpoint outp \<and> k = mkey kd name outp"
  proof
    fix k assume "k \<in> set ?ks"
    then have "k \<in> range_keys kd s name" by (simp only: set_range_scan)
    then have "k \<in> keys_of s" "in_range kd name k" by (simp_all add: range_keys_def)
    with assms show "\<exists>outp. valid_outpoint outp \<and> k = mkey kd name outp"
      using wf_key_in_range unfolding wf_store_def by blast
  qed
  from keys_as_mkeys [OF this] obtain outs
    where o1: "\<forall>outp \<in> set outs. valid_outpoint outp" and o2: "?ks = map (mkey kd name) outs"
    by (elim exE conjE)
  have "getMembers kd s name = Inr outs"
    using assms(2) o1 unfolding getMembers_eq o2 by (simp add: parse_keys_mkeys)
  with o1 o2 show ?thesis by (intro exI [of _ outs] conjI) simp_all
qed

lemma getMembers_length:
  assumes "wf_store s" "valid_name name" "distinct (map fst (db s))"
    and "getMembers kd s name = Inr outs"
  shows "length outs = card (range_keys kd s name)"
proof -
  from getMembers_wf [OF assms(1,2), of kd] assms(4)
  have "map (mkey kd name) outs = sort (filter (in_range kd name) (map fst (db s)))"
    by (elim exE conjE) simp
  then have "length outs = length (filter (in_range kd name) (map fst (db s)))"
    by (metis length_map length_sort)
  also have "\<dots> = card ({k. in_range kd name k} \<inter> set (map fst (db s)))"
    using assms(3) by (rule distinct_length_filter)
  also have "{k. in_range kd name k} \<inter> set (map fst (db s)) = range_keys kd s name"
    by (auto simp: range_keys_def keys_of_def)
  finally show ?thesis .
qed

lemma keys_of_update:
  "keys_of (s\<lparr>db := AList.update k v (db s)\<rparr>) = insert k (keys_of s)"
  by (simp add: keys_of_def dom_update)

lemma keys_delete: "fst ` set (AList.delete k al) = fst ` set al - {k}"
proof -
  have "fst ` set (AList.delete k al) = set (map fst (AList.delete k al))" by simp
  also have "\<dots> = set (removeAll k (map fst al))" by (simp only: delete_keys)
  finally show ?thesis by simp
qed

lemma inv_cong:
  assumes "inv s" "db s' = db s" "batch s' = None"
  shows "inv s'"
  using assms
  by (simp add: inv_def wf_store_def keys_of_def range_keys_def stored_count_def)

lemma stored_count_nonneg: "0 \<le> stored_count kd s name"
  by (cases "db_get (db s) (ckey kd name)")
    (simp_all add: stored_count_def count_or_zero_def BN_decode_nonneg)

lemma wf_key_ckey: "valid_name n \<Longrightarrow> wf_key (ckey kd n)"
  unfolding wf_key_def by blast

lemma wf_key_mkey: "valid_name n \<Longrightarrow> valid_outpoint outp \<Longrightarrow> wf_key (mkey kd n outp)"
  unfolding wf_key_def by blast

lemma inv_add_ok:
  assumes i: "inv s" and n: "valid_name name" and o: "valid_outpoint outp"
    and fresh: "mkey kd name outp \<notin> keys_of s"
    and s': "db s' = AList.update (mkey kd name outp) EMPTY
                 (AList.update (ckey kd name) (BN_encode (stored_count kd s name + 1)) (db s))"
    and b: "batch s' = None"
  shows "inv s'"
proof -
  let ?mk = "mkey kd name outp" and ?ck = "ckey kd name"
  have K: "keys_of s' = insert ?mk (insert ?ck (keys_of s))"
    by (auto simp: keys_of_def s' dom_update)
  have d: "distinct (map fst (db s'))"
    using i by (simp add: s' inv_def distinct_update)
  have w: "wf_store s'"
    using i n o by (simp add: wf_store_def K inv_def wf_key_ckey wf_key_mkey)
  have c: "stored_count kd' s' name' = int (card (range_keys kd' s' name'))"
    if v: "valid_name name'" for kd' name'
  proof (cases "kd' = kd \<and> name' = name")
    case True
    have "db_get (db s') ?ck = Some (BN_encode (stored_count kd s name + 1))"
      by (simp add: db_get_def s' update_conv' ckey_neq_mkey)
    then have sc: "stored_count kd s' name = stored_count kd s name + 1"
      using stored_count_nonneg [of kd s name]
      by (simp add: stored_count_def [of kd s'] count_or_zero_def BN_decode_encode)
    have "range_keys kd s' name = insert ?mk (range_keys kd s name)"
      using o by (auto simp: range_keys_def K mkey_in_range ckey_not_in_range)
    moreover have "?mk \<notin> range_keys kd s name" using fresh by (simp add: range_keys_def)
    moreover have "finite (range_keys kd s name)" by (simp add: range_keys_def keys_of_def)
    ultimately have "card (range_keys kd s' name) = Suc (card (range_keys kd s name))"
      by simp
    with sc i n True show ?thesis by (simp add: inv_def)
  next
    case False
    have "ckey kd' name' \<noteq> ?ck" using False n v ckey_inj by blast
    then have "db_get (db s') (ckey kd' name') = db_get (db s) (ckey kd' name')"
      by (simp add: db_get_def s' update_conv' ckey_neq_mkey)
    then have sc: "stored_count kd' s' name' = stored_count kd' s name'"
      by (simp add: stored_count_def)
    have "\<not> in_range kd' name' ?mk" using False n v o by (simp add: mkey_in_range_iff) blast
    then have "range_keys kd' s' name' = range_keys kd' s name'"
      by (auto simp: range_keys_def K ckey_not_in_range)
    with sc i v show ?thesis by (simp add: inv_def)
  qed
  from b d w c show ?thesis by (simp add: inv_def)
qed

lemma inv_remove_ok:
  assumes i: "inv s" and n: "valid_name name" and o: "valid_outpoint outp"
    and mem: "mkey kd name outp \<in> keys_of s"
    and raw: "db_get (db s) (ckey kd name) = Some raw"
    and s': "db s' = AList.delete (mkey kd name outp)
                 (AList.update (ckey kd name) (BN_encode (BN_decode raw - 1)) (db s))"
    and b: "batch s' = None"
  shows "inv s'"
proof -
  let ?mk = "mkey kd name outp" and ?ck = "ckey kd name"
  from raw have "?ck \<in> keys_of s"
    unfolding db_get_def keys_of_def by (metis domI dom_map_of_conv_image_fst)
  then have K: "keys_of s' = keys_of s - {?mk}"
    by (auto simp: keys_of_def s' keys_delete dom_update)
  have d: "distinct (map fst (db s'))"
    using i by (simp add: s' inv_def distinct_update distinct_delete)
  have w: "wf_store s'"
    using i by (simp add: wf_store_def K inv_def)
  have fin: "finite (range_keys kd s name)" by (simp add: range_keys_def keys_of_def)
  have c: "stored_count kd' s' name' = int (card (range_keys kd' s' name'))"
    if v: "valid_name name'" for kd' name'
  proof (cases "kd' = kd \<and> name' = name")
    case True
    have inR: "?mk \<in> range_keys kd s name"
      using mem o by (simp add: range_keys_def mkey_in_range)
    with fin have pos: "0 < card (range_keys kd s name)" by (auto simp: card_gt_0_iff)
    have "stored_count kd s name = int (card (range_keys kd s name))"
      using i n by (simp add: inv_def)
    moreover have "stored_count kd s name = BN_decode raw"
      using raw by (simp add: stored_count_def count_or_zero_def)
    ultimately have old: "BN_decode raw = int (card (range_keys kd s name))"
      by simp
    have "db_get (db s') ?ck = Some (BN_encode (BN_decode raw - 1))"
      using ckey_neq_mkey [of kd name kd name outp]
      by (simp add: db_get_def s' update_conv' delete_conv')
    then have "stored_count kd s' name = \<bar>BN_decode raw - 1\<bar>"
      by (simp add: stored_count_def count_or_zero_def BN_decode_encode)
    with old pos have sc: "stored_count kd s' name = int (card (range_keys kd s name)) - 1"
      by simp
    have "range_keys kd s' name = range_keys kd s name - {?mk}"
      by (auto simp: range_keys_def K)
    with inR fin have "card (range_keys kd s' name) = card (range_keys kd s name) - 1"
      by simp
    with sc pos True show ?thesis by simp
  next
    case False
    have ne: "ckey kd' name' \<noteq> ?ck" using False n v ckey_inj by blast
    have ne2: "ckey kd' name' \<noteq> ?mk" by (rule ckey_neq_mkey)
    from ne ne2 have "db_get (db s') (ckey kd' name') = db_get (db s) (ckey kd' name')"
      by (simp add: db_get_def s' update_conv' delete_conv')
    then have sc: "stored_count kd' s' name' = stored_count kd' s name'"
      by (simp add: stored_count_def)
    have "\<not> in_range kd' name' ?mk" using False n v o by (simp add: mkey_in_range_iff) blast
    then have "range_keys kd' s' name' = range_keys kd' s name'"
      by (auto simp: range_keys_def K)
    with sc i v show ?thesis by (simp add: inv_def)
  qed
  from b d w c show ?thesis by (simp add: inv_def)
qed

lemma inv_empty: "inv empty_adb"
  by (simp add: inv_def empty_adb_def wf_store_def keys_of_def stored_count_def
      count_or_zero_def db_get_def range_keys_def)

lemma hasMember_eq:
  "hasMember kd s name outp =
     (if index outp < 2 ^ 32 \<and> valid_name name \<and> length (hash outp) = 32
      then Inr (mkey kd name outp \<in> keys_of s) else
      if index outp < 2 ^ 32 then Inl KeyError else Inl AssertionError)"
  by (auto simp: hasMember_def encode3_eq mkey_def db_has_def db_get_def keys_of_def
      map_of_eq_None_iff)

lemma hasMember_InrD:
  assumes "hasMember kd s name outp = Inr b"
  shows "valid_name name \<and> valid_outpoint outp \<and> b = (mkey kd name outp \<in> keys_of s)"
  using assms by (auto simp: hasMember_eq valid_outpoint_def split: if_splits)

lemma inv_exec:
  assumes i: "inv s" and a: "admissible s opn"
  shows "inv (fst (exec s opn ok))"
proof (cases opn)
  case (Add kd name outp)
  with a have h: "hasMember kd s name outp = Inr False" by simp
  from hasMember_InrD [OF h] have n: "valid_name name" and o: "valid_outpoint outp"
    and fresh: "mkey kd name outp \<notin> keys_of s" by simp_all
  from i have b: "batch s = None" by (simp add: inv_def)
  show ?thesis
  proof (cases ok)
    case True
    show ?thesis
      unfolding Add exec.simps
      by (rule inv_add_ok [OF i n o fresh])
        (simp_all add: addMember_valid [OF n o b] True stored_count_def)
  next
    case False
    show ?thesis
      unfolding Add exec.simps
      by (rule inv_cong [OF i]) (simp_all add: addMember_valid [OF n o b] False)
  qed
next
  case (Remove kd name outp)
  with a have h: "hasMember kd s name outp = Inr True" by simp
  from hasMember_InrD [OF h] have n: "valid_name name" and o: "valid_outpoint outp"
    and mem: "mkey kd name outp \<in> keys_of s" by simp_all
  from i have b: "batch s = None" by (simp add: inv_def)
  show ?thesis
  proof (cases "db_get (db s) (ckey kd name)")
    case None
    then show ?thesis
      unfolding Remove exec.simps using i by (simp add: removeMember_valid [OF n o b])
  next
    case (Some raw)
    show ?thesis
    proof (cases ok)
      case True
      show ?thesis
        unfolding Remove exec.simps
        by (rule inv_remove_ok [OF i n o mem Some])
          (simp_all add: removeMember_valid [OF n o b] True Some)
    next
      case False
      show ?thesis
        unfolding Remove exec.simps
        by (rule inv_cong [OF i]) (simp_all add: removeMember_valid [OF n o b] False Some)
    qed
  qed
qed

lemma inv_run: "inv s \<Longrightarrow> guarded s ops \<Longrightarrow> inv (run s ops)"
proof (induction ops arbitrary: s)
  case Nil
  then show ?case by simp
next
  case (Cons x ops)
  obtain opn ok where x: "x = (opn, ok)" by (cases x)
  from Cons.prems have "admissible s opn" "guarded (fst (exec s opn ok)) ops" by (simp_all add: x)
  with Cons.prems(1) Cons.IH show ?case by (simp add: x inv_exec)
qed

lemma inv_count_members:
  assumes i: "inv s" and n: "valid_name name"
  shows "\<exists>c outs. getCount kd s name = Inr c \<and> getMembers kd s name = Inr outs
           \<and> count_or_zero c = int (length outs)"
proof -
  from i have w: "wf_store s" and d: "distinct (map fst (db s))" by (simp_all add: inv_def)
  from getMembers_wf [OF w n, of kd] obtain outs where g: "getMembers kd s name = Inr outs"
    by (elim exE conjE)
  from getMembers_length [OF w n d g] have "length outs = card (range_keys kd s name)" .
  moreover from i n have "stored_count kd s name = int (card (range_keys kd s name))"
    by (simp add: inv_def)
  ultimately have "count_or_zero (map_option BN_decode (db_get (db s) (ckey kd name))) = int (length outs)"
    by (simp add: stored_count_def)
  with g n show ?thesis by (simp add: getCount_eq)
qed

section \<open>The keys written by a sequence of adds\<close>

lemma added_keys_Nil: "added_keys [] = {}"
  by (simp add: added_keys_def)

lemma added_keys_Cons_ok:
  "added_keys ((Add kd name outp, True) # ops)
     = insert (mkey kd name outp) (insert (ckey kd name) (added_keys ops))"
  unfolding added_keys_def by (rule set_eqI) (simp, blast)

lemma added_keys_Cons_fail:
  "added_keys ((opn, False) # ops) = added_keys ops"
  unfolding added_keys_def by simp

lemma added_keys_Cons: "added_keys (x # ops) = added_keys [x] \<union> added_keys ops"
  unfolding added_keys_def by (rule set_eqI) (simp, blast)

lemma run_adds:
  assumes "\<forall>x \<in> set ops. valid_add (fst x)" and "batch s = None"
  shows "batch (run s ops) = None \<and> keys_of (run s ops) = keys_of s \<union> added_keys ops"
  using assms
proof (induction ops arbitrary: s)
  case Nil
  then show ?case by (simp add: added_keys_Nil)
next
  case (Cons x ops)
  obtain opn ok where x: "x = (opn, ok)" by (cases x)
  from Cons.prems(1) have va: "valid_add opn" and rest: "\<forall>x \<in> set ops. valid_add (fst x)"
    by (simp_all add: x)
  from va obtain kd name outp where opn: "opn = Add kd name outp"
    and n: "valid_name name" and o: "valid_outpoint outp"
    by (cases opn) simp_all
  let ?s1 = "fst (exec s opn ok)"
  have b1: "batch ?s1 = None"
    by (simp add: opn addMember_valid [OF n o Cons.prems(2)])
  have k1: "keys_of ?s1 = keys_of s \<union> added_keys [(opn, ok)]"
  proof (cases ok)
    case True
    then show ?thesis
      by (auto simp: opn addMember_valid [OF n o Cons.prems(2)] keys_of_def dom_update
          added_keys_Cons_ok added_keys_Nil)
  next
    case False
    then show ?thesis
      by (simp add: opn addMember_valid [OF n o Cons.prems(2)] keys_of_def
          added_keys_Cons_fail added_keys_Nil)
  qed
  have "added_keys (x # ops) = added_keys [(opn, ok)] \<union> added_keys ops"
    unfolding x by (rule added_keys_Cons)
  with Cons.IH [OF rest b1] k1 show ?case by (simp add: x Un_assoc)
qed

lemma added_keys_wf:
  assumes "\<forall>x \<in> set ops. valid_add (fst x)" and "k \<in> added_keys ops"
  shows "wf_key k"
proof -
  from assms(2) obtain kd name outp where m: "(Add kd name outp, True) \<in> set ops"
    and k: "k = ckey kd name \<or> k = mkey kd name outp"
    unfolding added_keys_def by blast
  from assms(1) m have "valid_add (Add kd name outp)" by fastforce
  with k show ?thesis by (auto simp: wf_key_ckey wf_key_mkey)
qed

lemma added_keys_in_range:
  assumes v: "\<forall>x \<in> set ops. valid_add (fst x)" and n: "valid_name name"
  shows "{k \<in> added_keys ops. in_range kd name k}
           = mkey kd name ` {outp. (Add kd name outp, True) \<in> set ops}"
proof (rule set_eqI, rule iffI)
  fix k
  assume "k \<in> {k \<in> added_keys ops. in_range kd name k}"
  then have r: "in_range kd name k" and "k \<in> added_keys ops" by simp_all
  then obtain kd' name' outp where m: "(Add kd' name' outp, True) \<in> set ops"
    and k: "k = ckey kd' name' \<or> k = mkey kd' name' outp"
    unfolding added_keys_def by blast
  from v m have va: "valid_name name'" "valid_outpoint outp" by fastforce+
  from k r have k': "k = mkey kd' name' outp" by (auto simp: ckey_not_in_range)
  with r n va have "kd' = kd \<and> name' = name" by (simp add: mkey_in_range_iff)
  with m k' show "k \<in> mkey kd name ` {outp. (Add kd name outp, True) \<in> set ops}" by blast
next
  fix k
  assume "k \<in> mkey kd name ` {outp. (Add kd name outp, True) \<in> set ops}"
  then obtain outp where m: "(Add kd name outp, True) \<in> set ops" and k: "k = mkey kd name outp"
    by blast
  from v m have "valid_outpoint outp" by fastforce
  then have "in_range kd name k" by (simp add: k mkey_in_range)
  moreover from m k have "k \<in> added_keys ops" unfolding added_keys_def by blast
  ultimately show "k \<in> {k \<in> added_keys ops. in_range kd name k}" by simp
qed

lemma members_after_adds:
  assumes v: "\<forall>x \<in> set ops. valid_add (fst x)" and n: "valid_name name"
  shows "\<exists>outs. getMembers kd (run empty_adb ops) name = Inr outs
           \<and> set outs = {outp. (Add kd name outp, True) \<in> set ops}"
proof -
  let ?s = "run empty_adb ops"
  let ?A = "{outp. (Add kd name outp, True) \<in> set ops}"
  have "batch empty_adb = None" by (simp add: empty_adb_def)
  from run_adds [OF v this] have K: "keys_of ?s = added_keys ops"
    by (simp add: keys_of_def empty_adb_def)
  have w: "wf_store ?s"
    unfolding wf_store_def K using added_keys_wf [OF v] by blast
  from getMembers_wf [OF w n, of kd] obtain outs where g: "getMembers kd ?s name = Inr outs"
    and vo: "\<forall>outp \<in> set outs. valid_outpoint outp"
    and m: "map (mkey kd name) outs = sort (filter (in_range kd name) (map fst (db ?s)))"
    by (elim exE conjE)
  have "set (map (mkey kd name) outs) = range_keys kd ?s name"
    by (simp only: m set_range_scan)
  also have "\<dots> = {k \<in> added_keys ops. in_range kd name k}"
    unfolding range_keys_def K ..
  also have "\<dots> = mkey kd name ` ?A"
    by (rule added_keys_in_range [OF v n])
  finally have img: "mkey kd name ` set outs = mkey kd name ` ?A"
    by (simp only: set_map)
  have vA: "valid_outpoint b" if "b \<in> ?A" for b
  proof -
    from that have "(Add kd name b, True) \<in> set ops" by simp
    with v have "valid_add (fst (Add kd name b, True))" by (rule bspec)
    then show ?thesis by simp
  qed
  have "set outs = ?A"
  proof (rule set_eqI, rule iffI)
    fix a assume a: "a \<in> set outs"
    then have "mkey kd name a \<in> mkey kd name ` set outs" by (rule imageI)
    then have "mkey kd name a \<in> mkey kd name ` ?A" by (simp only: img)
    then obtain b where b: "mkey kd name a = mkey kd name b" "b \<in> ?A" by (rule imageE)
    from vo a have "valid_outpoint a" by (rule bspec)
    from mkey_inj [OF n n this vA [OF b(2)] b(1)] have "a = b" by simp
    with b(2) show "a \<in> ?A" by simp
  next
    fix a assume a: "a \<in> ?A"
    then have "mkey kd name a \<in> mkey kd name ` ?A" by (rule imageI)
    then have "mkey kd name a \<in> mkey kd name ` set outs" by (simp only: img)
    then obtain b where b: "mkey kd name a = mkey kd name b" "b \<in> set outs" by (rule imageE)
    from vo b(2) have "valid_outpoint b" by (rule bspec)
    from mkey_inj [OF n n vA [OF a] this b(1)] have "a = b" by simp
    with b(2) show "a \<in> set outs" by simp
  qed
  with g show ?thesis by (intro exI [of _ outs] conjI)
qed

section \<open>Events, deliveries and the journal\<close>

lemma deliveries_Nil [simp]: "deliveries socks [] = []"
  by (simp add: deliveries_def)

lemma deliveries_append [simp]:
  "deliveries socks (xs @ ys) = deliveries socks xs @ deliveries socks ys"
  by (simp add: deliveries_def)

lemma deliveries_single:
  "deliveries socks [(ev, d)] = (if ev \<in> set events then map (\<lambda>sock. (sock, ev, d)) socks else [])"
  by (simp add: deliveries_def)

lemma deliveries_iff:
  "(sk, ev, d) \<in> set (deliveries socks evs)
     \<longleftrightarrow> sk \<in> set socks \<and> ev \<in> set events \<and> (ev, d) \<in> set evs"
  by (induction evs) (auto simp: deliveries_def)

lemma emit_fields:
  "emitted (emit srv ev d) = emitted srv @ [(ev, d)]"
  "sent (emit srv ev d) = sent srv @ deliveries (channels srv ''auction-notify'') [(ev, d)]"
  "channels (emit srv ev d) = channels srv"
  "options (emit srv ev d) = options srv"
  "adb (emit srv ev d) = adb srv"
  "http_log (emit srv ev d) = http_log srv"
  by (simp_all add: emit_def forward_def channel_def to_def deliveries_single Let_def)

lemma grows_refl: "grows E s s"
  unfolding grows_def by (intro conjI exI [of _ "[]"]) simp_all

lemma grows_trans:
  assumes "grows E a b" and "grows E b c"
  shows "grows E a c"
proof -
  from assms(1) obtain n1 b1 where 1: "channels b = channels a" "options b = options a"
    "emitted b = emitted a @ n1" "fst ` set n1 \<subseteq> E"
    "sent b = sent a @ deliveries (channels a ''auction-notify'') n1"
    "journal (adb b) = journal (adb a) @ b1" "list_all is_batch b1"
    unfolding grows_def by blast
  from assms(2) obtain n2 b2 where 2: "channels c = channels b" "options c = options b"
    "emitted c = emitted b @ n2" "fst ` set n2 \<subseteq> E"
    "sent c = sent b @ deliveries (channels b ''auction-notify'') n2"
    "journal (adb c) = journal (adb b) @ b2" "list_all is_batch b2"
    unfolding grows_def by blast
  show ?thesis
    unfolding grows_def
  proof (intro conjI)
    show "channels c = channels a" using 1 2 by simp
    show "options c = options a" using 1 2 by simp
    show "\<exists>new. emitted c = emitted a @ new \<and> fst ` set new \<subseteq> E \<and>
             sent c = sent a @ deliveries (channels a ''auction-notify'') new"
      using 1 2 by (intro exI [of _ "n1 @ n2"]) (auto simp: image_Un)
    show "\<exists>bs. journal (adb c) = journal (adb a) @ bs \<and> list_all is_batch bs"
      using 1 2 by (intro exI [of _ "b1 @ b2"]) simp
  qed
qed

lemma grows_mono: "grows E a b \<Longrightarrow> E \<subseteq> E' \<Longrightarrow> grows E' a b"
  unfolding grows_def by blast

lemma grows_emit: "ev \<in> E \<Longrightarrow> grows E s (emit s ev d)"
  unfolding grows_def
  by (intro conjI exI [of _ "[(ev, d)]"] exI [of _ "[]"]) (simp_all add: emit_fields)

lemma grows_log: "grows E s (log_error s msg)"
  unfolding grows_def log_error_def
  by (intro conjI exI [of _ "[]"]) simp_all

lemma grows_adb:
  assumes "journal a = journal (adb s) @ bs" and "list_all is_batch bs"
  shows "grows E s (s\<lparr>adb := a\<rparr>)"
  unfolding grows_def using assms
  by (intro conjI exI [of _ "[]"] exI [of _ bs]) simp_all


lemma commit_journal:
  "\<exists>bs. journal (fst (commit s ok)) = journal s @ bs \<and> list_all is_batch bs"
proof (cases "batch s")
  case None
  then show ?thesis by (intro exI [of _ "[]"]) (simp add: commit_def)
next
  case (Some ops)
  show ?thesis
  proof (cases ok)
    case True
    with Some show ?thesis by (intro exI [of _ "[WBatch ops]"]) (simp add: commit_def)
  next
    case False
    with Some show ?thesis by (intro exI [of _ "[]"]) (simp add: commit_def)
  qed
qed

lemma start_journal: "start s = Inr s1 \<Longrightarrow> journal s1 = journal s"
  by (auto simp: start_def split: if_splits)

lemma put_journal: "put s k v = Inr s1 \<Longrightarrow> journal s1 = journal s"
  by (auto simp: put_def split: option.splits)

lemma del_journal: "del s k = Inr s1 \<Longrightarrow> journal s1 = journal s"
  by (auto simp: del_def split: option.splits)

lemma addMember_journal:
  "\<exists>bs. journal (fst (addMember kd s name outp ok)) = journal s @ bs \<and> list_all is_batch bs"
proof -
  have triv: "\<exists>bs. journal s = journal s @ bs \<and> list_all is_batch bs"
    by (intro exI [of _ "[]"]) simp
  show ?thesis
  proof (cases "index outp < 2 ^ 32")
    case False
    then show ?thesis using triv by (simp add: addMember_def)
  next
    case i: True
    show ?thesis
    proof (cases "getCount kd s name")
      case (Inl e)
      with i show ?thesis using triv by (simp add: addMember_def)
    next
      case c: (Inr c)
      show ?thesis
      proof (cases "start s")
        case (Inl e)
        with i c show ?thesis using triv by (simp add: addMember_def)
      next
        case s1: (Inr s1)
        note j1 = start_journal [OF s1]
        show ?thesis
        proof (cases "encode1 (count_id kd) name")
          case (Inl e)
          with i c s1 j1 show ?thesis using triv by (simp add: addMember_def)
        next
          case ck: (Inr ckey)
          show ?thesis
          proof (cases "put s1 ckey (BN_encode ((case c of None \<Rightarrow> 0 | Some n \<Rightarrow> n) + 1))")
            case (Inl e)
            with i c s1 j1 ck show ?thesis using triv by (simp add: addMember_def)
          next
            case s2: (Inr s2)
            note j2 = put_journal [OF s2]
            show ?thesis
            proof (cases "encode3 (member_id kd) name (hash outp) (index outp)")
              case (Inl e)
              with i c s1 j1 ck s2 j2 show ?thesis using triv by (simp add: addMember_def)
            next
              case mk: (Inr mkey)
              show ?thesis
              proof (cases "put s2 mkey EMPTY")
                case (Inl e)
                with i c s1 j1 ck s2 j2 mk show ?thesis using triv by (simp add: addMember_def)
              next
                case s3: (Inr s3)
                note j3 = put_journal [OF s3]
                from commit_journal [of s3 ok] obtain bs
                  where "journal (fst (commit s3 ok)) = journal s @ bs" "list_all is_batch bs"
                  using j1 j2 j3 by auto
                moreover have "fst (addMember kd s name outp ok) = fst (commit s3 ok)"
                  using i c s1 ck s2 mk s3
                  by (simp add: addMember_def split: prod.splits sum.splits)
                ultimately show ?thesis by auto
              qed
            qed
          qed
        qed
      qed
    qed
  qed
qed

section \<open>The trace of the connect handler\<close>

lemma burn_loop_grows: "grows {''bid burned''} srv (burn_loop e srv name v bids)"
proof (induction bids arbitrary: srv)
  case Nil
  show ?case by (simp add: grows_refl)
next
  case (Cons bid bids)
  show ?case
  proof (cases "getCoin e (hash bid) (index bid)")
    case None
    then show ?thesis using Cons by simp
  next
    case (Some c)
    have "grows {''bid burned''} srv
            (emit srv ''bid burned'' (OutputData (Some name) \<lparr>hash = hash bid, index = index bid\<rparr> v))"
      by (rule grows_emit) simp
    from grows_trans [OF this Cons] show ?thesis using Some by simp
  qed
qed

lemma register_branch_grows:
  "grows (handler_events scope) srv (fst (register_branch scope e srv name outp v))"
proof -
  let ?E = "handler_events scope"
  let ?srv1 = "emit srv ''register'' (OutputData (Some name) outp v)"
  have r: "grows ?E srv ?srv1" by (rule grows_emit) (simp add: handler_events_def)
  show ?thesis
  proof (cases "getBidCount (adb srv) name")
    case (Inl e)
    then show ?thesis by (simp add: register_branch_def grows_refl)
  next
    case bc: (Inr bidCount)
    show ?thesis
    proof (cases "getRevealCount (adb srv) name")
      case (Inl e)
      with bc show ?thesis by (simp add: register_branch_def grows_refl)
    next
      case rc: (Inr revealCount)
      show ?thesis
      proof (cases bidCount)
        case None
        with bc rc r show ?thesis by (simp add: register_branch_def)
      next
        case b: (Some b)
        show ?thesis
        proof (cases revealCount)
          case None
          with bc rc b r show ?thesis by (simp add: register_branch_def)
        next
          case c: (Some c)
          have l: "grows ?E srv (log_error ?srv1 msg)" for msg
            by (rule grows_trans [OF r grows_log])
          have bl: "grows ?E srv (burn_loop e ?srv1 name v bids)" if "''adb'' \<in> set scope" for bids
          proof -
            have "grows {''bid burned''} ?srv1 (burn_loop e ?srv1 name v bids)"
              by (rule burn_loop_grows)
            then have "grows ?E ?srv1 (burn_loop e ?srv1 name v bids)"
              by (rule grows_mono) (simp add: handler_events_def that)
            with r show ?thesis by (rule grows_trans)
          qed
          show ?thesis
            using bc rc b c r l bl
            by (simp add: register_branch_def Let_def split: sum.splits)
        qed
      qed
    qed
  qed
qed

lemma process_output_grows:
  "grows (handler_events scope) srv (fst (process_output scope e srv tid i out))"
proof -
  let ?E = "handler_events scope"
  let ?outp = "\<lparr>hash = tid, index = i\<rparr>"
  have em: "grows ?E s (emit s ev d)"
    if "ev \<in> {''big spend'', ''bid'', ''reveal'', ''register'', ''revoke''}" for s ev d
    by (rule grows_emit) (use that in \<open>auto simp: handler_events_def\<close>)
  have add: "grows ?E srv (srv\<lparr>adb := fst (addMember kd (adb srv) name ?outp ok)\<rparr>)" for kd name ok
  proof -
    from addMember_journal [of kd "adb srv" name ?outp ok] obtain bs
      where "journal (fst (addMember kd (adb srv) name ?outp ok)) = journal (adb srv) @ bs"
        "list_all is_batch bs" by blast
    then show ?thesis by (rule grows_adb)
  qed
  have add_emit: "grows ?E srv
      (emit (srv\<lparr>adb := fst (addMember kd (adb srv) name ?outp ok)\<rparr>) ev d)"
    if "ev \<in> {''bid'', ''reveal''}" for kd name ok ev d
    by (rule grows_trans [OF add em]) (use that in auto)
  have add_log_emit: "grows ?E srv
      (emit (log_error (srv\<lparr>adb := fst (addMember kd (adb srv) name ?outp ok)\<rparr>) msg) ev d)"
    if "ev \<in> {''bid'', ''reveal''}" for kd name ok ev d msg
    by (rule grows_trans [OF grows_trans [OF add grows_log] em]) (use that in auto)
  show ?thesis
  proof (cases "ctype (covenant out) = NONE")
    case True
    then show ?thesis by (simp add: process_output_def Let_def grows_refl em)
  next
    case nn: False
    show ?thesis
    proof (cases "getHash0 (covenant out)")
      case (Inl err)
      with nn show ?thesis by (simp add: process_output_def Let_def grows_refl)
    next
      case h: (Inr nameHash)
      show ?thesis
      proof (cases "getNameState e nameHash")
        case None
        with nn h show ?thesis by (simp add: process_output_def Let_def grows_log)
      next
        case ns: (Some ns)
        show ?thesis
        proof (cases "ctype (covenant out) = BID")
          case True
          let ?name = "toString_ascii (ns_name ns)"
          obtain a r where ar: "addMember Bids (adb srv) ?name ?outp (commit_ok e ?outp) = (a, r)"
            by (cases "addMember Bids (adb srv) ?name ?outp (commit_ok e ?outp)")
          then have a: "a = fst (addMember Bids (adb srv) ?name ?outp (commit_ok e ?outp))"
            by simp
          show ?thesis
          proof (cases r)
            case (Inl err)
            with nn h ns True ar show ?thesis
              using add [of Bids ?name "commit_ok e ?outp"]
              by (simp add: process_output_def Let_def addBid_def a [symmetric])
          next
            case (Inr indexed)
            with nn h ns True ar show ?thesis
              using add_emit [of "''bid''" Bids ?name "commit_ok e ?outp"]
                add_log_emit [of "''bid''" Bids ?name "commit_ok e ?outp"]
              by (simp add: process_output_def Let_def addBid_def a [symmetric])
          qed
        next
          case nb: False
          show ?thesis
          proof (cases "ctype (covenant out) = REVEAL")
            case True
            let ?name = "toString_ascii (ns_name ns)"
            obtain a r where ar: "addMember Reveals (adb srv) ?name ?outp (commit_ok e ?outp) = (a, r)"
              by (cases "addMember Reveals (adb srv) ?name ?outp (commit_ok e ?outp)")
            then have a: "a = fst (addMember Reveals (adb srv) ?name ?outp (commit_ok e ?outp))"
              by simp
            show ?thesis
            proof (cases r)
              case (Inl err)
              with nn h ns nb True ar show ?thesis
                using add [of Reveals ?name "commit_ok e ?outp"]
                by (simp add: process_output_def Let_def addReveal_def a [symmetric])
            next
              case (Inr indexed)
              with nn h ns nb True ar show ?thesis
                using add_emit [of "''reveal''" Reveals ?name "commit_ok e ?outp"]
                  add_log_emit [of "''reveal''" Reveals ?name "commit_ok e ?outp"]
                by (simp add: process_output_def Let_def addReveal_def a [symmetric])
            qed
          next
            case nr: False
            with nn h ns nb show ?thesis
              using register_branch_grows [of scope srv e]
              by (simp add: process_output_def Let_def grows_refl em)
          qed
        qed
      qed
    qed
  qed
qed


lemma process_outputs_grows:
  "grows (handler_events scope) srv (fst (process_outputs scope e srv tid i outs))"
proof (induction outs arbitrary: srv i)
  case Nil
  show ?case by (simp add: grows_refl)
next
  case (Cons out outs)
  obtain srv1 r where p: "process_output scope e srv tid i out = (srv1, r)"
    by (cases "process_output scope e srv tid i out")
  from process_output_grows [of scope srv e tid i out] p
  have g1: "grows (handler_events scope) srv srv1" by simp
  show ?case
  proof (cases r)
    case None
    from grows_trans [OF g1 Cons [of srv1 "Suc i"]] p None show ?thesis by simp
  next
    case (Some err)
    with g1 p show ?thesis by simp
  qed
qed

lemma process_txs_grows:
  "grows (handler_events scope) srv (fst (process_txs scope e srv ts))"
proof (induction ts arbitrary: srv)
  case Nil
  show ?case by (simp add: grows_refl)
next
  case (Cons t ts)
  obtain srv1 r where p: "process_outputs scope e srv (txid t) 0 (outputs t) = (srv1, r)"
    by (cases "process_outputs scope e srv (txid t) 0 (outputs t)")
  from process_outputs_grows [of scope srv e "txid t" 0 "outputs t"] p
  have g1: "grows (handler_events scope) srv srv1" by simp
  show ?case
  proof (cases r)
    case None
    from grows_trans [OF g1 Cons [of srv1]] p None show ?thesis by simp
  next
    case (Some err)
    with g1 p show ?thesis by simp
  qed
qed

lemma connect_in_trace:
  "channels (fst (connect_in scope e srv blk)) = channels srv
 \<and> (\<exists>new. emitted (fst (connect_in scope e srv blk)) = emitted srv @ new
        \<and> fst ` set new \<subseteq> insert ''block stats'' (handler_events scope)
        \<and> sent (fst (connect_in scope e srv blk))
            = sent srv @ deliveries (channels srv ''auction-notify'') new)
 \<and> (\<exists>bs. journal (adb (fst (connect_in scope e srv blk)))
            = journal (adb srv) @ (if tip_ok e then [WPut layout_T (bhash blk)] else []) @ bs
        \<and> list_all is_batch bs)"
proof -
  let ?E = "insert ''block stats'' (handler_events scope)"
  let ?srv0 = "srv\<lparr>adb := fst (putTip (adb srv) (bhash blk) (tip_ok e))\<rparr>"
  obtain srv1 r where p: "process_txs scope e ?srv0 (txs blk) = (srv1, r)"
    by (cases "process_txs scope e ?srv0 (txs blk)")
  from process_txs_grows [of scope ?srv0 e "txs blk"] p
  have "grows (handler_events scope) ?srv0 srv1" by simp
  then have g1: "grows ?E ?srv0 srv1" by (rule grows_mono) blast
  let ?res = "fst (connect_in scope e srv blk)"
  have "grows ?E ?srv0 ?res"
  proof (cases r)
    case None
    have "grows ?E srv1 (emit srv1 ''block stats'' (StatsData 0 0 0 0))"
      by (rule grows_emit) simp
    from grows_trans [OF g1 this] p None show ?thesis by (simp add: connect_in_def Let_def)
  next
    case (Some err)
    with g1 p show ?thesis by (simp add: connect_in_def Let_def)
  qed
  then obtain new bs where c: "channels ?res = channels ?srv0"
    and n: "emitted ?res = emitted ?srv0 @ new" "fst ` set new \<subseteq> ?E"
      "sent ?res = sent ?srv0 @ deliveries (channels ?srv0 ''auction-notify'') new"
    and j: "journal (adb ?res) = journal (adb ?srv0) @ bs" "list_all is_batch bs"
    unfolding grows_def by blast
  have j0: "journal (adb ?srv0)
      = journal (adb srv) @ (if tip_ok e then [WPut layout_T (bhash blk)] else [])"
    by (simp add: putTip_def)
  show ?thesis
  proof (intro conjI)
    show "channels ?res = channels srv" using c by simp
    show "\<exists>new. emitted ?res = emitted srv @ new \<and> fst ` set new \<subseteq> ?E
        \<and> sent ?res = sent srv @ deliveries (channels srv ''auction-notify'') new"
      using n by (intro exI [of _ new]) simp
    show "\<exists>bs. journal (adb ?res)
            = journal (adb srv) @ (if tip_ok e then [WPut layout_T (bhash blk)] else []) @ bs
        \<and> list_all is_batch bs"
      using j j0 by (intro exI [of _ bs]) simp
  qed
qed

section \<open>Evaluation on concrete stores\<close>

lemma mkey_neq_ckey: "mkey kd' n' outp \<noteq> ckey kd n"
  using ckey_neq_mkey [of kd n kd' n' outp] by (rule not_sym)

lemma mkey_eq_iff:
  "valid_name n \<Longrightarrow> valid_name n' \<Longrightarrow> valid_outpoint a \<Longrightarrow> valid_outpoint b \<Longrightarrow>
   (mkey kd n a = mkey kd' n' b) = (kd = kd' \<and> n = n' \<and> a = b)"
  using mkey_inj by blast

lemma ckey_eq_iff:
  "valid_name n \<Longrightarrow> valid_name n' \<Longrightarrow> (ckey kd n = ckey kd' n') = (kd = kd' \<and> n = n')"
  using ckey_inj by blast

lemmas eval_simps = mkey_eq_iff ckey_eq_iff
  addMember_valid removeMember_valid getCount_eq getMembers_eq hasMember_eq
  valid_name_def valid_outpoint_def empty_adb_def db_get_def keys_of_def
  ckey_neq_mkey mkey_neq_ckey mkey_in_range_iff ckey_not_in_range decode3_mkey
  count_or_zero_def BN_decode_encode

section \<open>Evaluation of the handler on concrete blocks\<close>

lemma toString_ascii_foo: "toString_ascii [0x66, 0x6F, 0x6F] = ''foo''"
  by (simp add: toString_ascii_def char_of_def bit_0)

lemma layout_T_neq_keys:
  "layout_T \<noteq> ckey kd n" "ckey kd n \<noteq> layout_T"
  "layout_T \<noteq> mkey kd n outp" "mkey kd n outp \<noteq> layout_T"
  by (auto simp: layout_T_def ckey_def mkey_def name_bytes_def)

lemmas handler_simps =
  connect_def connect_in_def block_with_def demo_chain_def demo_server_def demo_options_def
  process_output_def register_branch_def putTip_def getHash0_def toString_ascii_foo
  addBid_def addReveal_def getBidCount_def getRevealCount_def getBids_def
  emit_def forward_def channel_def to_def events_def log_error_def Let_def
  layout_T_neq_keys layout_T_not_in_range bigSpendValue_def http_scope_def

lemma replicate_less:
  fixes a b :: byte
  assumes "a < b" and "0 < n"
  shows "replicate n a @ r \<le> replicate n b @ r'" and "\<not> replicate n b @ r' \<le> replicate n a @ r"
proof -
  from assms(2) obtain m where n: "n = Suc m" by (cases n) simp_all
  from assms(1) show "replicate n a @ r \<le> replicate n b @ r'" by (simp add: n)
  from assms(1) show "\<not> replicate n b @ r' \<le> replicate n a @ r" by (auto simp: n)
qed

lemma mkey_le_iff:
  "(mkey kd n a \<le> mkey kd n b) = (hash a @ be32 (index a) \<le> hash b @ be32 (index b))"
  by (simp add: mkey_def)

lemma burn_loop_emitted:
  "emitted (burn_loop e srv name v bids)
     = emitted srv @
       map (\<lambda>bid. (''bid burned'', OutputData (Some name) \<lparr>hash = hash bid, index = index bid\<rparr> v))
         (filter (\<lambda>bid. getCoin e (hash bid) (index bid) \<noteq> None) bids)"
  by (induction bids arbitrary: srv) (auto simp: emit_fields)

section \<open>Claims\<close>

text \<open>
  C1, as the code has it. Starting from the empty index, after any guarded sequence of
  add and remove operations (every add of an outpoint that is not yet a member, every
  remove of an outpoint that is a member, each commit succeeding or failing), the stored
  counter of every name, with \<^verbatim>\<open>null\<close> read as zero, equals the number of outpoints listed
  for that name, for bids and for reveals.
\<close>

theorem count_equals_members:
  assumes "guarded empty_adb ops" and "valid_name name"
  shows "(\<exists>c outs. getBidCount (run empty_adb ops) name = Inr c
            \<and> getBids (run empty_adb ops) name = Inr outs
            \<and> count_or_zero c = int (length outs))
       \<and> (\<exists>c outs. getRevealCount (run empty_adb ops) name = Inr c
            \<and> getReveals (run empty_adb ops) name = Inr outs
            \<and> count_or_zero c = int (length outs))"
  unfolding getBidCount_def getBids_def getRevealCount_def getReveals_def
  using inv_count_members [OF inv_run [OF inv_empty assms(1)] assms(2)] by blast

theorem count_equals_members_witness:
  "guarded empty_adb
     [(Add Bids ''foo'' \<lparr>hash = replicate 32 0x11, index = 0\<rparr>, True),
      (Add Reveals ''foo'' \<lparr>hash = replicate 32 0x11, index = 0\<rparr>, True),
      (Remove Bids ''foo'' \<lparr>hash = replicate 32 0x11, index = 0\<rparr>, True)]
   \<and> valid_name ''foo''
   \<and> (\<exists>c outs.
         getBidCount (run empty_adb
           [(Add Bids ''foo'' \<lparr>hash = replicate 32 0x11, index = 0\<rparr>, True),
            (Add Reveals ''foo'' \<lparr>hash = replicate 32 0x11, index = 0\<rparr>, True),
            (Remove Bids ''foo'' \<lparr>hash = replicate 32 0x11, index = 0\<rparr>, True)]) ''foo'' = Inr c
       \<and> getBids (run empty_adb
           [(Add Bids ''foo'' \<lparr>hash = replicate 32 0x11, index = 0\<rparr>, True),
            (Add Reveals ''foo'' \<lparr>hash = replicate 32 0x11, index = 0\<rparr>, True),
            (Remove Bids ''foo'' \<lparr>hash = replicate 32 0x11, index = 0\<rparr>, True)]) ''foo'' = Inr outs
       \<and> count_or_zero c = int (length outs))"
proof -
  have g: "guarded empty_adb
     [(Add Bids ''foo'' \<lparr>hash = replicate 32 0x11, index = 0\<rparr>, True),
      (Add Reveals ''foo'' \<lparr>hash = replicate 32 0x11, index = 0\<rparr>, True),
      (Remove Bids ''foo'' \<lparr>hash = replicate 32 0x11, index = 0\<rparr>, True)]"
    by (simp add: eval_simps del: member_id.simps count_id.simps)
  have v: "valid_name ''foo''" by (simp add: valid_name_def)
  from count_equals_members [OF g v] g v show ?thesis by blast
qed

text \<open>
  C1 as stated fails: the same outpoint added twice. Both calls succeed, the counter
  is 2 and one outpoint is listed.
\<close>

theorem count_equals_members_counterexample:
  "snd (addBid empty_adb ''foo'' \<lparr>hash = replicate 32 0x11, index = 0\<rparr> True) = Inr JTrue
 \<and> snd (addBid (fst (addBid empty_adb ''foo'' \<lparr>hash = replicate 32 0x11, index = 0\<rparr> True))
         ''foo'' \<lparr>hash = replicate 32 0x11, index = 0\<rparr> True) = Inr JTrue
 \<and> getBidCount
       (fst (addBid (fst (addBid empty_adb ''foo'' \<lparr>hash = replicate 32 0x11, index = 0\<rparr> True))
         ''foo'' \<lparr>hash = replicate 32 0x11, index = 0\<rparr> True)) ''foo'' = Inr (Some 2)
 \<and> getBids
       (fst (addBid (fst (addBid empty_adb ''foo'' \<lparr>hash = replicate 32 0x11, index = 0\<rparr> True))
         ''foo'' \<lparr>hash = replicate 32 0x11, index = 0\<rparr> True)) ''foo''
     = Inr [\<lparr>hash = replicate 32 0x11, index = 0\<rparr>]"
  by (simp add: addBid_def getBidCount_def getBids_def eval_simps
      del: member_id.simps count_id.simps)

text \<open>
  C2 fails on the code. The name \<^verbatim>\<open>foo\<close> has two recorded bids and one reveal; the coin of
  \<open>bid1\<close> exists and the coin of \<open>bid2\<close> is absent. On a REGISTER output the handler emits
  \<^verbatim>\<open>register\<close> and then throws a ReferenceError on the identifier \<^verbatim>\<open>adb\<close>: no \<^verbatim>\<open>bid burned\<close>
  event is emitted. Were the identifier bound to the AuctionDB, the loop would report
  \<open>bid1\<close>, whose coin exists, and not \<open>bid2\<close>.
\<close>

theorem register_burn_reconciliation_fails:
  "getBidCount (adb burn_server) ''foo'' = Inr (Some 2)
 \<and> getRevealCount (adb burn_server) ''foo'' = Inr (Some 1)
 \<and> getBids (adb burn_server) ''foo'' = Inr [bid1, bid2]
 \<and> getCoin burn_chain (hash bid1) (index bid1) = Some \<lparr>coin_value = 2000\<rparr>
 \<and> getCoin burn_chain (hash bid2) (index bid2) = None
 \<and> snd (connect burn_chain burn_server (block_with REGISTER 1000)) = Some (ReferenceError ''adb'')
 \<and> emitted (fst (connect burn_chain burn_server (block_with REGISTER 1000)))
     = [(''register'', OutputData (Some ''foo'') \<lparr>hash = replicate 32 0x11, index = 0\<rparr> 1000)]
 \<and> emitted (fst (connect_in (''adb'' # http_scope) burn_chain burn_server
                     (block_with REGISTER 1000)))
     = [(''register'', OutputData (Some ''foo'') \<lparr>hash = replicate 32 0x11, index = 0\<rparr> 1000),
        (''bid burned'', OutputData (Some ''foo'') bid1 1000),
        (''block stats'', StatsData 0 0 0 0)]"
  by (simp add: handler_simps burn_chain_def burn_server_def bid1_def bid2_def reveal1_def
      eval_simps mkey_le_iff replicate_less del: member_id.simps count_id.simps)

text \<open>
  C3, as the code has it. On an idle AuctionDB and for arguments that the key compiler
  accepts: \<^verbatim>\<open>removeBid\<close> and \<^verbatim>\<open>removeReveal\<close> on a name whose count query answers \<^verbatim>\<open>null\<close> (no
  counter record) change nothing and answer \<^verbatim>\<open>null\<close>; a count read from the store is never
  negative; and when the count is positive a committed remove writes the count less one
  and deletes the membership key, answering \<^verbatim>\<open>true\<close>, whether or not the outpoint was a
  member.
\<close>

theorem remove_semantics:
  assumes "valid_name name" and "valid_outpoint outp" and "batch s = None"
  shows "(getBidCount s name = Inr None \<longrightarrow> removeBid s name outp ok = (s, Inr JNull))
       \<and> (getRevealCount s name = Inr None \<longrightarrow> removeReveal s name outp ok = (s, Inr JNull))
       \<and> (\<forall>c. getBidCount s name = Inr (Some c) \<longrightarrow>
             0 \<le> c \<and>
             (0 < c \<longrightarrow>
                removeBid s name outp True
                  = (s\<lparr>db := apply_batch [Put (ckey Bids name) (BN_encode (c - 1)),
                                          Del (mkey Bids name outp)] (db s),
                        journal := journal s @
                          [WBatch [Put (ckey Bids name) (BN_encode (c - 1)),
                                   Del (mkey Bids name outp)]]\<rparr>, Inr JTrue)))
       \<and> (\<forall>c. getRevealCount s name = Inr (Some c) \<longrightarrow>
             0 \<le> c \<and>
             (0 < c \<longrightarrow>
                removeReveal s name outp True
                  = (s\<lparr>db := apply_batch [Put (ckey Reveals name) (BN_encode (c - 1)),
                                          Del (mkey Reveals name outp)] (db s),
                        journal := journal s @
                          [WBatch [Put (ckey Reveals name) (BN_encode (c - 1)),
                                   Del (mkey Reveals name outp)]]\<rparr>, Inr JTrue)))"
  using assms
  by (auto simp: removeBid_def removeReveal_def getBidCount_def getRevealCount_def
      removeMember_valid getCount_eq BN_decode_nonneg apply_batch_def split: option.splits)

theorem remove_semantics_witness:
  "valid_name ''foo'' \<and> valid_outpoint \<lparr>hash = replicate 32 0x22, index = 1\<rparr>
 \<and> batch empty_adb = None
 \<and> getBidCount empty_adb ''foo'' = Inr None
 \<and> removeBid empty_adb ''foo'' \<lparr>hash = replicate 32 0x22, index = 1\<rparr> True = (empty_adb, Inr JNull)
 \<and> getRevealCount empty_adb ''foo'' = Inr None
 \<and> removeReveal empty_adb ''foo'' \<lparr>hash = replicate 32 0x22, index = 1\<rparr> True = (empty_adb, Inr JNull)
 \<and> batch (fst (addBid empty_adb ''foo'' \<lparr>hash = replicate 32 0x11, index = 0\<rparr> True)) = None
 \<and> getBidCount (fst (addBid empty_adb ''foo'' \<lparr>hash = replicate 32 0x11, index = 0\<rparr> True)) ''foo''
     = Inr (Some 1)
 \<and> snd (removeBid (fst (addBid empty_adb ''foo'' \<lparr>hash = replicate 32 0x11, index = 0\<rparr> True)) ''foo''
       \<lparr>hash = replicate 32 0x22, index = 1\<rparr> True) = Inr JTrue
 \<and> batch (fst (addReveal empty_adb ''foo'' \<lparr>hash = replicate 32 0x11, index = 0\<rparr> True)) = None
 \<and> getRevealCount (fst (addReveal empty_adb ''foo'' \<lparr>hash = replicate 32 0x11, index = 0\<rparr> True)) ''foo''
     = Inr (Some 1)
 \<and> snd (removeReveal (fst (addReveal empty_adb ''foo'' \<lparr>hash = replicate 32 0x11, index = 0\<rparr> True)) ''foo''
       \<lparr>hash = replicate 32 0x22, index = 1\<rparr> True) = Inr JTrue"
proof -
  let ?o1 = "\<lparr>hash = replicate 32 0x11, index = 0\<rparr>"
  let ?o2 = "\<lparr>hash = replicate 32 0x22, index = 1\<rparr>"
  have n: "valid_name ''foo''" by (simp add: valid_name_def)
  have o: "valid_outpoint ?o2" by (simp add: valid_outpoint_def)
  have b0: "batch empty_adb = None" by (simp add: empty_adb_def)
  have c0: "getBidCount empty_adb ''foo'' = Inr None" "getRevealCount empty_adb ''foo'' = Inr None"
    by (simp_all add: getBidCount_def getRevealCount_def eval_simps)
  have b1: "batch (fst (addBid empty_adb ''foo'' ?o1 True)) = None"
    "batch (fst (addReveal empty_adb ''foo'' ?o1 True)) = None"
    by (simp_all add: addBid_def addReveal_def eval_simps del: member_id.simps count_id.simps)
  have c1: "getBidCount (fst (addBid empty_adb ''foo'' ?o1 True)) ''foo'' = Inr (Some 1)"
    "getRevealCount (fst (addReveal empty_adb ''foo'' ?o1 True)) ''foo'' = Inr (Some 1)"
    by (simp_all add: getBidCount_def getRevealCount_def addBid_def addReveal_def eval_simps
        del: member_id.simps count_id.simps)
  from remove_semantics [OF n o b0, of True] c0
  have r0: "removeBid empty_adb ''foo'' ?o2 True = (empty_adb, Inr JNull)"
    "removeReveal empty_adb ''foo'' ?o2 True = (empty_adb, Inr JNull)"
    by simp_all
  from remove_semantics [OF n o b1(1), of True] c1(1)
  have r1: "snd (removeBid (fst (addBid empty_adb ''foo'' ?o1 True)) ''foo'' ?o2 True) = Inr JTrue"
    by simp
  from remove_semantics [OF n o b1(2), of True] c1(2)
  have r2: "snd (removeReveal (fst (addReveal empty_adb ''foo'' ?o1 True)) ''foo'' ?o2 True) = Inr JTrue"
    by simp
  from n o b0 c0 b1 c1 r0 r1 r2 show ?thesis by simp
qed

text \<open>
  C3 as stated fails: the name has one bid, and an outpoint that is not a member is
  removed. The call answers \<^verbatim>\<open>true\<close>, the counter drops from 1 to 0 and the member is
  still listed.
\<close>

theorem remove_non_member_counterexample:
  "getBidCount (fst (addBid empty_adb ''foo'' \<lparr>hash = replicate 32 0x11, index = 0\<rparr> True)) ''foo''
     = Inr (Some 1)
 \<and> hasBid (fst (addBid empty_adb ''foo'' \<lparr>hash = replicate 32 0x11, index = 0\<rparr> True)) ''foo''
       \<lparr>hash = replicate 32 0x22, index = 1\<rparr> = Inr False
 \<and> snd (removeBid (fst (addBid empty_adb ''foo'' \<lparr>hash = replicate 32 0x11, index = 0\<rparr> True)) ''foo''
       \<lparr>hash = replicate 32 0x22, index = 1\<rparr> True) = Inr JTrue
 \<and> getBidCount
       (fst (removeBid (fst (addBid empty_adb ''foo'' \<lparr>hash = replicate 32 0x11, index = 0\<rparr> True))
          ''foo'' \<lparr>hash = replicate 32 0x22, index = 1\<rparr> True)) ''foo'' = Inr (Some 0)
 \<and> getBids
       (fst (removeBid (fst (addBid empty_adb ''foo'' \<lparr>hash = replicate 32 0x11, index = 0\<rparr> True))
          ''foo'' \<lparr>hash = replicate 32 0x22, index = 1\<rparr> True)) ''foo''
     = Inr [\<lparr>hash = replicate 32 0x11, index = 0\<rparr>]"
  by (simp add: addBid_def removeBid_def hasBid_def getBidCount_def getBids_def eval_simps
      del: member_id.simps count_id.simps)

text \<open>
  C4, as the code has it. For every connected block the handler writes the tip first:
  when the write of the tip succeeds it is the first write of the block, and every write
  after it is a committed batch of the index.
\<close>

theorem tip_written_first:
  "\<exists>bs. journal (adb (fst (connect e srv blk)))
           = journal (adb srv) @ (if tip_ok e then [WPut layout_T (bhash blk)] else []) @ bs
       \<and> list_all is_batch bs"
  unfolding connect_def using connect_in_trace [of http_scope e srv blk] by blast

text \<open>
  C4 as stated fails: a block with one BID output. The tip is written before the batch
  of the bid is committed.
\<close>

theorem tip_after_mutations_counterexample:
  "journal (adb demo_server) = []
 \<and> journal (adb (fst (connect demo_chain demo_server (block_with BID 1000))))
     = [WPut layout_T (replicate 32 0xAA),
        WBatch [Put (ckey Bids ''foo'') (BN_encode 1),
                Put (mkey Bids ''foo'' \<lparr>hash = replicate 32 0x11, index = 0\<rparr>) EMPTY]]"
  by (simp add: handler_simps eval_simps del: member_id.simps count_id.simps)

text \<open>
  C5. After any sequence of adds (of both kinds, for any names, each commit succeeding or
  failing) on an empty index, the outpoints listed for a name are exactly those whose add
  under that very name and kind was committed: nothing indexed under another name
  appears, whether or not one name is a prefix of the other.
\<close>

theorem prefix_isolation:
  assumes "list_all (\<lambda>x. valid_add (fst x)) ops" and "valid_name n2"
  shows "(\<exists>outs. getBids (run empty_adb ops) n2 = Inr outs
            \<and> set outs = {outp. (Add Bids n2 outp, True) \<in> set ops})
       \<and> (\<exists>outs. getReveals (run empty_adb ops) n2 = Inr outs
            \<and> set outs = {outp. (Add Reveals n2 outp, True) \<in> set ops})"
proof -
  from assms(1) have v: "\<forall>x \<in> set ops. valid_add (fst x)" by (simp add: list_all_iff)
  from members_after_adds [OF v assms(2), of Bids] members_after_adds [OF v assms(2), of Reveals]
  show ?thesis unfolding getBids_def getReveals_def by (rule conjI)
qed

theorem prefix_isolation_witness:
  "list_all (\<lambda>x. valid_add (fst x))
     [(Add Bids ''a'' \<lparr>hash = replicate 32 0x62, index = 7\<rparr>, True),
      (Add Bids ''ab'' \<lparr>hash = replicate 32 0x11, index = 0\<rparr>, True)]
 \<and> valid_name ''ab''
 \<and> getBids (run empty_adb
        [(Add Bids ''a'' \<lparr>hash = replicate 32 0x62, index = 7\<rparr>, True),
         (Add Bids ''ab'' \<lparr>hash = replicate 32 0x11, index = 0\<rparr>, True)]) ''ab''
     = Inr [\<lparr>hash = replicate 32 0x11, index = 0\<rparr>]
 \<and> (\<exists>outs. getReveals (run empty_adb
        [(Add Bids ''a'' \<lparr>hash = replicate 32 0x62, index = 7\<rparr>, True),
         (Add Bids ''ab'' \<lparr>hash = replicate 32 0x11, index = 0\<rparr>, True)]) ''ab'' = Inr outs
      \<and> set outs = {})"
proof -
  have v: "list_all (\<lambda>x. valid_add (fst x))
     [(Add Bids ''a'' \<lparr>hash = replicate 32 0x62, index = 7\<rparr>, True),
      (Add Bids ''ab'' \<lparr>hash = replicate 32 0x11, index = 0\<rparr>, True)]"
    by (simp add: valid_name_def valid_outpoint_def)
  have n: "valid_name ''ab''" by (simp add: valid_name_def)
  have g: "getBids (run empty_adb
        [(Add Bids ''a'' \<lparr>hash = replicate 32 0x62, index = 7\<rparr>, True),
         (Add Bids ''ab'' \<lparr>hash = replicate 32 0x11, index = 0\<rparr>, True)]) ''ab''
     = Inr [\<lparr>hash = replicate 32 0x11, index = 0\<rparr>]"
    by (simp add: getBids_def eval_simps del: member_id.simps count_id.simps)
  from prefix_isolation [OF v n] v n g show ?thesis by simp
qed

text \<open>
  C6, as the code has it. While a block is processed the channel membership does not
  change, and what is sent to the consumers is exactly \<open>deliveries\<close> of the new events: an
  event named \<^verbatim>\<open>bid\<close>, \<^verbatim>\<open>reveal\<close>, \<^verbatim>\<open>register\<close>, \<^verbatim>\<open>bid burned\<close>, \<^verbatim>\<open>open\<close> or \<^verbatim>\<open>big spend\<close> goes, with
  its name and payload, to every socket joined to \<^verbatim>\<open>auction-notify\<close>; an event of any other
  name goes to nobody; a socket that is not joined gets nothing, and joining later sends
  nothing.
\<close>

theorem fanout_of_connect:
  "channels (fst (connect e srv blk)) = channels srv
 \<and> (\<exists>new. emitted (fst (connect e srv blk)) = emitted srv @ new
        \<and> sent (fst (connect e srv blk))
            = sent srv @ deliveries (channels srv ''auction-notify'') new
        \<and> (\<forall>sk ev d. (sk, ev, d) \<in> set (deliveries (channels srv ''auction-notify'') new)
              \<longleftrightarrow> sk \<in> set (channels srv ''auction-notify'') \<and> ev \<in> set events
                  \<and> (ev, d) \<in> set new))
 \<and> sent (join (fst (connect e srv blk)) sock ''auction-notify'') = sent (fst (connect e srv blk))"
proof -
  from connect_in_trace [of http_scope e srv blk]
  have "channels (fst (connect e srv blk)) = channels srv"
    and "\<exists>new. emitted (fst (connect e srv blk)) = emitted srv @ new
        \<and> sent (fst (connect e srv blk))
            = sent srv @ deliveries (channels srv ''auction-notify'') new"
    unfolding connect_def by blast+
  moreover have "sent (join s sock ''auction-notify'') = sent s" for s
    by (simp add: join_def)
  ultimately show ?thesis using deliveries_iff by blast
qed

text \<open>
  C6 as stated fails: a block with one REVOKE output, with socket 1 joined. The events
  \<^verbatim>\<open>revoke\<close> and \<^verbatim>\<open>block stats\<close> are emitted and nothing is sent.
\<close>

theorem revoke_not_delivered_counterexample:
  "channels demo_server ''auction-notify'' = [1]
 \<and> emitted (fst (connect demo_chain demo_server (block_with REVOKE 1000)))
     = [(''revoke'', OutputData (Some ''foo'') \<lparr>hash = replicate 32 0x11, index = 0\<rparr> 1000),
        (''block stats'', StatsData 0 0 0 0)]
 \<and> sent (fst (connect demo_chain demo_server (block_with REVOKE 1000))) = []"
  by (simp add: handler_simps eval_simps del: member_id.simps count_id.simps)

text \<open>
  C7. On an idle AuctionDB and for arguments that the key compiler accepts, \<^verbatim>\<open>addBid\<close> and
  \<^verbatim>\<open>addReveal\<close> read the count, add one and write the counter and the membership key in
  one batch. When the commit fails the answer is \<^verbatim>\<open>null\<close>, nothing is thrown, and the
  store is as before: only the log has a new line.
\<close>

theorem add_commit_atomic:
  assumes "valid_name name" and "valid_outpoint outp" and "batch s = None"
  shows "addBid s name outp False
           = (s\<lparr>adb_log := adb_log s @ [''Error writing to db...'']\<rparr>, Inr JNull)
       \<and> addBid s name outp True
           = (s\<lparr>db := apply_batch
                         [Put (ckey Bids name) (BN_encode (stored_count Bids s name + 1)),
                          Put (mkey Bids name outp) EMPTY] (db s),
                 journal := journal s @
                   [WBatch [Put (ckey Bids name) (BN_encode (stored_count Bids s name + 1)),
                            Put (mkey Bids name outp) EMPTY]]\<rparr>, Inr JTrue)
       \<and> addReveal s name outp False
           = (s\<lparr>adb_log := adb_log s @ [''Error writing to db...'']\<rparr>, Inr JNull)
       \<and> addReveal s name outp True
           = (s\<lparr>db := apply_batch
                         [Put (ckey Reveals name) (BN_encode (stored_count Reveals s name + 1)),
                          Put (mkey Reveals name outp) EMPTY] (db s),
                 journal := journal s @
                   [WBatch [Put (ckey Reveals name) (BN_encode (stored_count Reveals s name + 1)),
                            Put (mkey Reveals name outp) EMPTY]]\<rparr>, Inr JTrue)"
  using assms
  by (simp add: addBid_def addReveal_def addMember_valid stored_count_def apply_batch_def)

theorem add_commit_atomic_witness:
  "valid_name ''foo'' \<and> valid_outpoint \<lparr>hash = replicate 32 0x11, index = 0\<rparr>
 \<and> batch empty_adb = None
 \<and> addBid empty_adb ''foo'' \<lparr>hash = replicate 32 0x11, index = 0\<rparr> False
     = (empty_adb\<lparr>adb_log := [''Error writing to db...'']\<rparr>, Inr JNull)
 \<and> db (fst (addBid empty_adb ''foo'' \<lparr>hash = replicate 32 0x11, index = 0\<rparr> True))
     = [(ckey Bids ''foo'', BN_encode 1),
        (mkey Bids ''foo'' \<lparr>hash = replicate 32 0x11, index = 0\<rparr>, EMPTY)]
 \<and> snd (addBid empty_adb ''foo'' \<lparr>hash = replicate 32 0x11, index = 0\<rparr> True) = Inr JTrue"
proof -
  have n: "valid_name ''foo''" by (simp add: valid_name_def)
  have o: "valid_outpoint \<lparr>hash = replicate 32 0x11, index = 0\<rparr>"
    by (simp add: valid_outpoint_def)
  have b: "batch empty_adb = None" by (simp add: empty_adb_def)
  have c: "stored_count Bids empty_adb ''foo'' = 0"
    by (simp add: stored_count_def count_or_zero_def db_get_def empty_adb_def)
  from add_commit_atomic [OF n o b] n o b show ?thesis
    by (simp add: apply_batch_def empty_adb_def ckey_neq_mkey c [unfolded empty_adb_def])
qed

text \<open>
  C8, as the code has it. When the counter key of a name is absent, \<^verbatim>\<open>getBidCount\<close> and
  \<^verbatim>\<open>getRevealCount\<close> answer \<^verbatim>\<open>null\<close>; when it is present they answer the stored bytes read
  as an unsigned number.
\<close>

theorem count_query_null:
  assumes "encode1 (count_id Bids) name = Inr kb" and "encode1 (count_id Reveals) name = Inr kr"
  shows "(db_get (db s) kb = None \<longrightarrow> getBidCount s name = Inr None)
       \<and> (\<forall>raw. db_get (db s) kb = Some raw \<longrightarrow>
             getBidCount s name = Inr (Some (BN_decode raw)) \<and> 0 \<le> BN_decode raw)
       \<and> (db_get (db s) kr = None \<longrightarrow> getRevealCount s name = Inr None)
       \<and> (\<forall>raw. db_get (db s) kr = Some raw \<longrightarrow>
             getRevealCount s name = Inr (Some (BN_decode raw)) \<and> 0 \<le> BN_decode raw)"
  using assms
  by (simp add: getBidCount_def getRevealCount_def getCount_def BN_decode_nonneg)

theorem count_query_null_witness:
  "encode1 (count_id Bids) ''foo'' = Inr (ckey Bids ''foo'')
 \<and> encode1 (count_id Reveals) ''foo'' = Inr (ckey Reveals ''foo'')
 \<and> db_get (db empty_adb) (ckey Bids ''foo'') = None
 \<and> getBidCount empty_adb ''foo'' = Inr None
 \<and> db_get (db empty_adb) (ckey Reveals ''foo'') = None
 \<and> getRevealCount empty_adb ''foo'' = Inr None
 \<and> db_get (db (fst (addBid empty_adb ''foo'' \<lparr>hash = replicate 32 0x11, index = 0\<rparr> True)))
       (ckey Bids ''foo'') = Some (BN_encode 1)
 \<and> getBidCount (fst (addBid empty_adb ''foo'' \<lparr>hash = replicate 32 0x11, index = 0\<rparr> True)) ''foo''
     = Inr (Some 1)"
proof -
  have b: "encode1 (count_id Bids) ''foo'' = Inr (ckey Bids ''foo'')"
    by (simp add: encode1_eq ckey_def valid_name_def)
  have r: "encode1 (count_id Reveals) ''foo'' = Inr (ckey Reveals ''foo'')"
    by (simp add: encode1_eq ckey_def valid_name_def)
  have e: "db_get (db empty_adb) (ckey Bids ''foo'') = None"
    "db_get (db empty_adb) (ckey Reveals ''foo'') = None"
    by (simp_all add: db_get_def empty_adb_def)
  have a: "db_get (db (fst (addBid empty_adb ''foo'' \<lparr>hash = replicate 32 0x11, index = 0\<rparr> True)))
       (ckey Bids ''foo'') = Some (BN_encode 1)"
    by (simp add: addBid_def eval_simps del: member_id.simps count_id.simps)
  from count_query_null [OF b r, of empty_adb]
    count_query_null [OF b r, of "fst (addBid empty_adb ''foo'' \<lparr>hash = replicate 32 0x11, index = 0\<rparr> True)"]
    b r e a
  show ?thesis by (simp add: BN_decode_encode)
qed

text \<open>
  C8 as stated fails: on the empty index the count queries answer \<^verbatim>\<open>null\<close>, not the
  number 0.
\<close>

theorem count_query_null_counterexample:
  "getBidCount empty_adb ''foo'' = Inr None \<and> getBidCount empty_adb ''foo'' \<noteq> Inr (Some 0)
 \<and> getRevealCount empty_adb ''foo'' = Inr None \<and> getRevealCount empty_adb ''foo'' \<noteq> Inr (Some 0)"
  by (simp add: getBidCount_def getRevealCount_def getCount_eq valid_name_def db_get_def empty_adb_def)

text \<open>
  C9 fails on the code. An output with covenant NONE never makes the handler emit
  anything, whatever its value and whatever the options: the threshold
  \<^verbatim>\<open>this.options.bigSpendValue\<close> is \<^verbatim>\<open>undefined\<close> and the comparison is false.
\<close>

theorem none_output_emits_nothing:
  assumes "ctype (covenant out) = NONE"
  shows "process_output scope e srv tid i out = (srv, None)"
  using assms by (simp add: process_output_def bigSpendValue_def Let_def)

theorem none_output_emits_nothing_witness:
  "ctype (covenant \<lparr>covenant = \<lparr>ctype = NONE, items = []\<rparr>, out_value = 9007199254740991\<rparr>) = NONE
 \<and> process_output http_scope demo_chain demo_server (replicate 32 0x11) 0
       \<lparr>covenant = \<lparr>ctype = NONE, items = []\<rparr>, out_value = 9007199254740991\<rparr>
     = (demo_server, None)
 \<and> emitted (fst (connect demo_chain demo_server (block_with NONE 9007199254740991)))
     = [(''block stats'', StatsData 0 0 0 0)]
 \<and> sent (fst (connect demo_chain demo_server (block_with NONE 9007199254740991))) = []"
proof -
  have c: "ctype (covenant \<lparr>covenant = \<lparr>ctype = NONE, items = []\<rparr>,
             out_value = 9007199254740991\<rparr>) = NONE" by simp
  have "emitted (fst (connect demo_chain demo_server (block_with NONE 9007199254740991)))
     = [(''block stats'', StatsData 0 0 0 0)]"
    and "sent (fst (connect demo_chain demo_server (block_with NONE 9007199254740991))) = []"
    by (simp_all add: handler_simps eval_simps del: member_id.simps count_id.simps)
  with none_output_emits_nothing [OF c, of http_scope demo_chain demo_server "replicate 32 0x11" 0] c
  show ?thesis by simp
qed

text \<open>
  C10. The handler never emits \<^verbatim>\<open>bid burned\<close>: the events that a connected block adds
  have other names. Whenever the REGISTER branch finds more bids than reveals, it emits
  \<^verbatim>\<open>register\<close> and throws a ReferenceError on the identifier \<^verbatim>\<open>adb\<close>, so that the loop over
  the bids is not reached.
\<close>

theorem bid_burned_unreachable:
  "(\<exists>new. emitted (fst (connect e srv blk)) = emitted srv @ new
        \<and> ''bid burned'' \<notin> fst ` set new)
 \<and> (getBidCount (adb srv) name = Inr (Some bc) \<and> getRevealCount (adb srv) name = Inr (Some rc)
      \<and> rc < bc \<longrightarrow>
      register_branch http_scope e srv name outp v
        = (emit srv ''register'' (OutputData (Some name) outp v), Some (ReferenceError ''adb'')))"
proof (rule conjI)
  have no: "''adb'' \<notin> set http_scope" by (simp add: http_scope_def)
  from connect_in_trace [of http_scope e srv blk] obtain new
    where n: "emitted (fst (connect e srv blk)) = emitted srv @ new"
      "fst ` set new \<subseteq> insert ''block stats'' (handler_events http_scope)"
    unfolding connect_def by blast
  from n(2) no have "''bid burned'' \<notin> fst ` set new"
    by (auto simp: handler_events_def)
  with n(1) show "\<exists>new. emitted (fst (connect e srv blk)) = emitted srv @ new
        \<and> ''bid burned'' \<notin> fst ` set new" by blast
next
  show "getBidCount (adb srv) name = Inr (Some bc) \<and> getRevealCount (adb srv) name = Inr (Some rc)
      \<and> rc < bc \<longrightarrow>
      register_branch http_scope e srv name outp v
        = (emit srv ''register'' (OutputData (Some name) outp v), Some (ReferenceError ''adb''))"
    by (simp add: register_branch_def http_scope_def Let_def)
qed

theorem bid_burned_unreachable_witness:
  "getBidCount (adb burn_server) ''foo'' = Inr (Some 2)
 \<and> getRevealCount (adb burn_server) ''foo'' = Inr (Some 1)
 \<and> (1 :: int) < 2
 \<and> register_branch http_scope burn_chain burn_server ''foo''
       \<lparr>hash = replicate 32 0x11, index = 0\<rparr> 1000
     = (emit burn_server ''register''
          (OutputData (Some ''foo'') \<lparr>hash = replicate 32 0x11, index = 0\<rparr> 1000),
        Some (ReferenceError ''adb''))
 \<and> snd (connect burn_chain burn_server (block_with REGISTER 1000)) = Some (ReferenceError ''adb'')"
proof -
  have c: "getBidCount (adb burn_server) ''foo'' = Inr (Some 2)"
    "getRevealCount (adb burn_server) ''foo'' = Inr (Some 1)"
    by (simp_all add: burn_server_def demo_server_def bid1_def bid2_def reveal1_def
        getBidCount_def getRevealCount_def eval_simps del: member_id.simps count_id.simps)
  have f: "snd (connect burn_chain burn_server (block_with REGISTER 1000))
      = Some (ReferenceError ''adb'')"
    by (simp add: handler_simps burn_chain_def burn_server_def bid1_def bid2_def reveal1_def
        eval_simps del: member_id.simps count_id.simps)
  from bid_burned_unreachable [of burn_chain burn_server "block_with REGISTER 1000" "''foo''" 2 1
      "\<lparr>hash = replicate 32 0x11, index = 0\<rparr>" 1000] c f
  show ?thesis by simp
qed

end
